theory Spec2Isabelle
  imports Complex_Main "HOL-Library.Log_Nat"
begin

section \<open>Numbers: the float64 cells of a pandas column\<close>

text \<open>
  The numeric columns of the dashboard are pandas \<^verbatim>\<open>float64\<close> columns: IEEE 754
  binary64 values under round-to-nearest, ties-to-even. A finite value is kept as the
  rational number it denotes; \<open>Finite 0\<close> is \<open>+0.0\<close> and \<open>NegZero\<close> is \<open>-0.0\<close>.
  Element-wise arithmetic on a column never raises: division by zero gives an infinity
  or NaN, as numpy does.
\<close>

datatype f64 = Finite rat | NegZero | PInf | NInf | NaN

definition round_even :: "rat \<Rightarrow> int" where
  "round_even x =
     (let f = \<lfloor>x\<rfloor>; d = x - of_int f
      in if d < 1 / 2 then f else if 1 / 2 < d then f + 1 else if even f then f else f + 1)"

text \<open>
  The binary exponent of a positive rational, clamped to the exponent range of binary64
  (\<open>-1022\<close> for subnormal numbers, \<open>1023\<close> at most): the largest \<open>e\<close> in the range
  with \<open>2 powi e \<le> q\<close>.
\<close>

fun expo_search :: "nat \<Rightarrow> rat \<Rightarrow> int" where
  "expo_search 0 q = - 1022"
| "expo_search (Suc k) q =
     (if 2 powi (int (Suc k) - 1022) \<le> q then int (Suc k) - 1022 else expo_search k q)"

definition expo :: "rat \<Rightarrow> int" where
  "expo q = expo_search 2045 q"

text \<open>Rounding a positive rational to the nearest multiple of its unit in the last place
  (53 significant bits).\<close>

definition round_mag :: "rat \<Rightarrow> rat" where
  "round_mag q = (let u = 2 powi (expo q - 52) in of_int (round_even (q / u)) * u)"

definition fround :: "rat \<Rightarrow> f64" where
  "fround q =
     (if q = 0 then Finite 0
      else if 0 < q then
        (let r = round_mag q in if 2 powi 1024 \<le> r then PInf else Finite r)
      else
        (let r = round_mag (- q)
         in if 2 powi 1024 \<le> r then NInf else if r = 0 then NegZero else Finite (- r)))"

fun is_neg :: "f64 \<Rightarrow> bool" where
  "is_neg (Finite q) = (q < 0)"
| "is_neg NegZero = True"
| "is_neg PInf = False"
| "is_neg NInf = True"
| "is_neg NaN = False"

fun is_zero :: "f64 \<Rightarrow> bool" where
  "is_zero (Finite q) = (q = 0)"
| "is_zero NegZero = True"
| "is_zero _ = False"

fun is_inf :: "f64 \<Rightarrow> bool" where
  "is_inf PInf = True"
| "is_inf NInf = True"
| "is_inf _ = False"

fun val :: "f64 \<Rightarrow> rat" where
  "val (Finite q) = q"
| "val _ = 0"

definition signed_zero :: "bool \<Rightarrow> f64" where
  "signed_zero neg = (if neg then NegZero else Finite 0)"

definition signed_inf :: "bool \<Rightarrow> f64" where
  "signed_inf neg = (if neg then NInf else PInf)"

definition fmul :: "f64 \<Rightarrow> f64 \<Rightarrow> f64" where
  "fmul x y =
     (if x = NaN \<or> y = NaN then NaN
      else if is_inf x \<or> is_inf y then
        (if is_zero x \<or> is_zero y then NaN else signed_inf (is_neg x \<noteq> is_neg y))
      else if is_zero x \<or> is_zero y then signed_zero (is_neg x \<noteq> is_neg y)
      else fround (val x * val y))"

definition fadd :: "f64 \<Rightarrow> f64 \<Rightarrow> f64" where
  "fadd x y =
     (if x = NaN \<or> y = NaN then NaN
      else if is_inf x then (if is_inf y \<and> x \<noteq> y then NaN else x)
      else if is_inf y then y
      else (let q = val x + val y
            in if q = 0 then (if x = NegZero \<and> y = NegZero then NegZero else Finite 0)
               else fround q))"

definition fdiv :: "f64 \<Rightarrow> f64 \<Rightarrow> f64" where
  "fdiv x y =
     (if x = NaN \<or> y = NaN then NaN
      else if is_inf x then (if is_inf y then NaN else signed_inf (is_neg x \<noteq> is_neg y))
      else if is_inf y then signed_zero (is_neg x \<noteq> is_neg y)
      else if is_zero y then
        (if is_zero x then NaN else signed_inf (is_neg x \<noteq> is_neg y))
      else if is_zero x then signed_zero (is_neg x \<noteq> is_neg y)
      else fround (val x / val y))"

text \<open>The comparison \<open>x <= y\<close> of two floats; every comparison with NaN is false.\<close>

fun fle :: "f64 \<Rightarrow> f64 \<Rightarrow> bool" where
  "fle NaN _ = False"
| "fle _ NaN = False"
| "fle NInf _ = True"
| "fle _ PInf = True"
| "fle PInf _ = False"
| "fle _ NInf = False"
| "fle x y = (val x \<le> val y)"


section \<open>Tables: the pandas DataFrame of the dashboard\<close>

text \<open>
  A DataFrame is its columns in order, each with its name. A column holds text (the town
  names) or float64 numbers (the data model: every numeric field is a float; a column of
  integer type is not modelled apart). Rows are positions: every column of the script
  comes from one table with the default index, so element-wise operations pair the cells
  of one row.
\<close>

datatype error =
    KeyError "string list" | TypeError | IndexError | ValueError | StreamlitAPIException

datatype column = StrCol "string list" | NumCol "f64 list"

datatype cell = S string | N f64

type_synonym dataframe = "(string \<times> column) list"

fun cells :: "column \<Rightarrow> cell list" where
  "cells (StrCol ss) = map S ss"
| "cells (NumCol xs) = map N xs"

definition nrows :: "dataframe \<Rightarrow> nat" where
  "nrows df = (case df of [] \<Rightarrow> 0 | (n, c) # _ \<Rightarrow> length (cells c))"

text \<open>Column names are unique and all columns have the same number of rows.\<close>

definition wf_df :: "dataframe \<Rightarrow> bool" where
  "wf_df df \<longleftrightarrow> distinct (map fst df) \<and> list_all (\<lambda>(n, c). length (cells c) = nrows df) df"

definition and_then :: "error + 'a \<Rightarrow> ('a \<Rightarrow> error + 'b) \<Rightarrow> error + 'b" where
  "and_then m f = (case m of Inl e \<Rightarrow> Inl e | Inr x \<Rightarrow> f x)"

text \<open>\<^verbatim>\<open>df[name]\<close>: a missing column raises KeyError.\<close>

definition get_col :: "dataframe \<Rightarrow> string \<Rightarrow> error + column" where
  "get_col df name = (case map_of df name of None \<Rightarrow> Inl (KeyError [name]) | Some c \<Rightarrow> Inr c)"

text \<open>\<^verbatim>\<open>df[[n1, n2, ...]]\<close>: the named columns in the order asked for; KeyError names
  the missing ones.\<close>

definition select_cols :: "dataframe \<Rightarrow> string list \<Rightarrow> error + dataframe" where
  "select_cols df names =
     (let missing = filter (\<lambda>n. map_of df n = None) names
      in if missing \<noteq> [] then Inl (KeyError missing)
         else Inr (map (\<lambda>n. (n, the (map_of df n))) names))"

text \<open>\<^verbatim>\<open>df[name] = col\<close>: replaces the column in place, or appends a new last column.\<close>

fun set_col :: "string \<Rightarrow> column \<Rightarrow> dataframe \<Rightarrow> dataframe" where
  "set_col name col [] = [(name, col)]"
| "set_col name col ((n, c) # df) =
     (if n = name then (name, col) # df else (n, c) # set_col name col df)"

text \<open>\<^verbatim>\<open>series[:n]\<close>: the first \<open>n\<close> rows, all of them when there are fewer.\<close>

fun col_take :: "nat \<Rightarrow> column \<Rightarrow> column" where
  "col_take n (StrCol ss) = StrCol (take n ss)"
| "col_take n (NumCol xs) = NumCol (take n xs)"

text \<open>
  Arithmetic on a column is element-wise float64 arithmetic. On a text column it raises
  TypeError (\<^verbatim>\<open>1.5 * 'a'\<close>, \<^verbatim>\<open>1.0 + 'a'\<close>); a column without rows has nothing to
  raise on.
\<close>

definition numbers :: "column \<Rightarrow> error + f64 list" where
  "numbers col = (case col of NumCol xs \<Rightarrow> Inr xs
                   | StrCol ss \<Rightarrow> if ss = [] then Inr [] else Inl TypeError)"

definition smul :: "f64 \<Rightarrow> column \<Rightarrow> error + column" where
  "smul k col = and_then (numbers col) (\<lambda>xs. Inr (NumCol (map (fmul k) xs)))"

definition sadd :: "column \<Rightarrow> column \<Rightarrow> error + column" where
  "sadd a b = and_then (numbers a) (\<lambda>xs. and_then (numbers b) (\<lambda>ys.
     Inr (NumCol (map (\<lambda>(x, y). fadd x y) (zip xs ys)))))"

definition sdiv :: "column \<Rightarrow> column \<Rightarrow> error + column" where
  "sdiv a b = and_then (numbers a) (\<lambda>xs. and_then (numbers b) (\<lambda>ys.
     Inr (NumCol (map (\<lambda>(x, y). fdiv x y) (zip xs ys)))))"

text \<open>\<^verbatim>\<open>df[mask]\<close>: the rows where the boolean mask is true.\<close>

definition keep :: "bool list \<Rightarrow> 'a list \<Rightarrow> 'a list" where
  "keep flags xs = map fst (filter snd (zip xs flags))"

fun col_keep :: "bool list \<Rightarrow> column \<Rightarrow> column" where
  "col_keep flags (StrCol ss) = StrCol (keep flags ss)"
| "col_keep flags (NumCol xs) = NumCol (keep flags xs)"

definition filter_rows :: "bool list \<Rightarrow> dataframe \<Rightarrow> dataframe" where
  "filter_rows flags df = map (\<lambda>(n, c). (n, col_keep flags c)) df"

text \<open>\<^verbatim>\<open>df[name] == value\<close>, for a text value.\<close>

definition eq_mask :: "column \<Rightarrow> string \<Rightarrow> bool list" where
  "eq_mask col v = map (\<lambda>c. c = S v) (cells col)"

text \<open>
  \<^verbatim>\<open>df.melt(id_vars=id, ...)\<close>: long format, one row (id value, column name, value)
  per cell of every other column, column after column. A table without the id column
  raises KeyError, one that holds it more than once raises ValueError.
\<close>

type_synonym long_row = "cell \<times> string \<times> cell"

definition melt :: "string \<Rightarrow> dataframe \<Rightarrow> error + long_row list" where
  "melt ident df =
     (case map_of df ident of
        None \<Rightarrow> Inl (KeyError [ident])
      | Some idc \<Rightarrow>
          if 1 < length (filter (\<lambda>(name, c). name = ident) df) then Inl ValueError
          else
            Inr (concat (map (\<lambda>(name, c). map (\<lambda>(t, v). (t, name, v)) (zip (cells idc) (cells c)))
                             (filter (\<lambda>(name, c). name \<noteq> ident) df))))"

text \<open>
  \<^verbatim>\<open>df.columns.str.strip()\<close>: leading and trailing white space off every header. A
  header is its UTF-8 bytes. White space is what \<^verbatim>\<open>str.strip\<close> removes: the ASCII
  characters 09 to 0D, 1C to 1F and 20, and the characters U+0085, U+00A0, U+1680,
  U+2000 to U+200A, U+2028, U+2029, U+202F, U+205F and U+3000, which take two or three
  bytes.
\<close>

definition is_space :: "char \<Rightarrow> bool" where
  "is_space c \<longleftrightarrow> c \<in> set [CHR 0x09, CHR 0x0A, CHR 0x0B, CHR 0x0C, CHR 0x0D,
                            CHR 0x1C, CHR 0x1D, CHR 0x1E, CHR 0x1F, CHR 0x20]"

definition space2 :: "char \<Rightarrow> char \<Rightarrow> bool" where
  "space2 a b \<longleftrightarrow> a = CHR 0xC2 \<and> b \<in> set [CHR 0x85, CHR 0xA0]"

definition space3 :: "char \<Rightarrow> char \<Rightarrow> char \<Rightarrow> bool" where
  "space3 a b c \<longleftrightarrow>
     a = CHR 0xE1 \<and> b = CHR 0x9A \<and> c = CHR 0x80
     \<or> a = CHR 0xE2 \<and> b = CHR 0x80
         \<and> c \<in> set [CHR 0x80, CHR 0x81, CHR 0x82, CHR 0x83, CHR 0x84, CHR 0x85, CHR 0x86,
                      CHR 0x87, CHR 0x88, CHR 0x89, CHR 0x8A, CHR 0xA8, CHR 0xA9, CHR 0xAF]
     \<or> a = CHR 0xE2 \<and> b = CHR 0x81 \<and> c = CHR 0x9F
     \<or> a = CHR 0xE3 \<and> b = CHR 0x80 \<and> c = CHR 0x80"

text \<open>Dropping the white space characters at the front of a byte string; \<open>two\<close> and
  \<open>three\<close> recognise the characters of two and three bytes.\<close>

fun drop_space ::
  "(char \<Rightarrow> char \<Rightarrow> bool) \<Rightarrow> (char \<Rightarrow> char \<Rightarrow> char \<Rightarrow> bool) \<Rightarrow> string \<Rightarrow> string" where
  "drop_space two three (a # b # c # s) =
     (if is_space a then drop_space two three (b # c # s)
      else if two a b then drop_space two three (c # s)
      else if three a b c then drop_space two three s
      else a # b # c # s)"
| "drop_space two three [a, b] =
     (if is_space a then drop_space two three [b]
      else if two a b then []
      else [a, b])"
| "drop_space two three [a] = (if is_space a then [] else [a])"
| "drop_space two three [] = []"

definition lstrip :: "string \<Rightarrow> string" where
  "lstrip s = drop_space space2 space3 s"

text \<open>At the end of the string the bytes of a character are met last byte first.\<close>

definition rstrip :: "string \<Rightarrow> string" where
  "rstrip s = rev (drop_space (\<lambda>a b. space2 b a) (\<lambda>a b c. space3 c b a) (rev s))"

definition strip :: "string \<Rightarrow> string" where
  "strip s = rstrip (lstrip s)"

definition strip_columns :: "dataframe \<Rightarrow> dataframe" where
  "strip_columns df = map (\<lambda>(n, c). (strip n, c)) df"


section \<open>The dashboard script\<close>

text \<open>
  The script runs top to bottom on every interaction. Its inputs are the loaded table and
  the current values of the widgets; it rebinds the variable \<^verbatim>\<open>df\<close> as it goes and
  hands one chart after the other to the page. An exception stops the run: the charts
  drawn so far stay on the page. The widgets belong to the page and their current values
  are given; the one check a widget makes on data of the script, that every default town
  of the annotation multiselect is among its options, is part of the script. The summary
  statistics of the overview are display only and are left out.
\<close>

record ui =
  num_towns :: nat
  selected_towns :: "string list"
  selected_town :: string
  submit_button :: bool
  selected_columns :: "string list"
  age_group :: string

text \<open>A scatter trace: its x values, y values and texts (hover names or labels).\<close>

type_synonym trace = "cell list \<times> cell list \<times> cell list"

text \<open>A figure under construction: the base trace and the traces added on top of it.\<close>

type_synonym figure = "trace \<times> trace list"

datatype chart =
    Bar "long_row list"
  | Scatter figure
  | Pie cell "(string \<times> cell) list"
  | ScatterByTown trace

record state =
  df :: dataframe
  charts :: "chart list"

abbreviation bucket1 :: string where "bucket1 \<equiv> ''Average family size - 1 to 3 members''"
abbreviation bucket2 :: string where "bucket2 \<equiv> ''Average family size - 4 to 6 members''"
abbreviation bucket3 :: string where "bucket3 \<equiv> ''Average family size - 7 or more members''"
abbreviation family_size :: string where "family_size \<equiv> ''Average family size''"
abbreviation women :: string where "women \<equiv> ''Percentage of Women''"
abbreviation men :: string where "men \<equiv> ''Percentage of Men''"
abbreviation youth :: string where "youth \<equiv> ''Percentage of Youth - 15-24 years''"
abbreviation elderly :: string where "elderly \<equiv> ''Percentage of Eldelry - 65 or more years''"

subsection \<open>Gender by town: the first \<open>num_towns\<close> rows, melted\<close>

definition truncation_plot :: "nat \<Rightarrow> dataframe \<Rightarrow> error + dataframe" where
  "truncation_plot n d =
     and_then (get_col d ''Town'') (\<lambda>town.
     and_then (get_col d women) (\<lambda>percentage_women.
     and_then (get_col d men) (\<lambda>percentage_men.
       Inr [(''Town'', col_take n town),
            (women, col_take n percentage_women),
            (men, col_take n percentage_men)])))"

definition section_gender :: "ui \<Rightarrow> state \<Rightarrow> error + state" where
  "section_gender u st =
     (let d = strip_columns (df st)
      in and_then (truncation_plot (num_towns u) d) (\<lambda>df_plot.
         and_then (melt ''Town'' df_plot) (\<lambda>df_melted.
           Inr \<lparr>df = d, charts = charts st @ [Bar df_melted]\<rparr>)))"

subsection \<open>Average family size\<close>

text \<open>The first computation of the derived column.\<close>

definition average_family_size :: "dataframe \<Rightarrow> error + dataframe" where
  "average_family_size d =
     and_then (get_col d bucket1) (\<lambda>a.
     and_then (smul (Finite (3 / 2)) a) (\<lambda>t1.
     and_then (get_col d bucket2) (\<lambda>b.
     and_then (smul (Finite 5) b) (\<lambda>t2.
     and_then (sadd t1 t2) (\<lambda>s12.
     and_then (get_col d bucket3) (\<lambda>c.
     and_then (smul (Finite 7) c) (\<lambda>t3.
     and_then (sadd s12 t3) (\<lambda>numerator.
     and_then (get_col d bucket1) (\<lambda>a'.
     and_then (get_col d bucket2) (\<lambda>b'.
     and_then (sadd a' b') (\<lambda>d12.
     and_then (get_col d bucket3) (\<lambda>c'.
     and_then (sadd d12 c') (\<lambda>denominator.
     and_then (sdiv numerator denominator) (\<lambda>avg.
       Inr (set_col family_size avg d)))))))))))))))"

text \<open>The formula of the derived metric for one town, as the data model gives it, in
  float64 arithmetic.\<close>

definition weighted_mean :: "f64 \<Rightarrow> f64 \<Rightarrow> f64 \<Rightarrow> f64" where
  "weighted_mean b1 b2 b3 =
     fdiv (fadd (fadd (fmul (Finite (3 / 2)) b1) (fmul (Finite 5) b2)) (fmul (Finite 7) b3))
          (fadd (fadd b1 b2) b3)"

text \<open>The same formula in exact arithmetic, as the data model writes it:
  \<open>(1.5*b1 + 5*b2 + 7*b3) / (b1 + b2 + b3)\<close>.\<close>

definition formula_average :: "rat \<Rightarrow> rat \<Rightarrow> rat \<Rightarrow> rat" where
  "formula_average b1 b2 b3 = (3 / 2 * b1 + 5 * b2 + 7 * b3) / (b1 + b2 + b3)"

definition section_family_size :: "state \<Rightarrow> error + state" where
  "section_family_size st =
     (let d = strip_columns (df st)
      in and_then (average_family_size d) (\<lambda>d'. Inr \<lparr>df = d', charts = charts st\<rparr>))"

subsection \<open>Scatter plot with annotated towns\<close>

text \<open>The chart library reads the columns of a chart by name and raises ValueError for a
  name that is not a column.\<close>

definition px_col :: "dataframe \<Rightarrow> string \<Rightarrow> error + column" where
  "px_col d name = (case map_of d name of None \<Rightarrow> Inl ValueError | Some c \<Rightarrow> Inr c)"

definition px_scatter :: "dataframe \<Rightarrow> string \<Rightarrow> string \<Rightarrow> string \<Rightarrow> error + trace" where
  "px_scatter d x y hover_name =
     and_then (px_col d x) (\<lambda>xs.
     and_then (px_col d y) (\<lambda>ys.
     and_then (px_col d hover_name) (\<lambda>hs. Inr (cells xs, cells ys, cells hs))))"

definition add_scatter :: "figure \<Rightarrow> trace \<Rightarrow> figure" where
  "add_scatter fig tr = (fst fig, snd fig @ [tr])"

definition town_trace :: "dataframe \<Rightarrow> string \<Rightarrow> error + trace" where
  "town_trace df_plot town =
     and_then (get_col df_plot ''Town'') (\<lambda>tc.
       let town_data = filter_rows (eq_mask tc town) df_plot
       in and_then (get_col town_data family_size) (\<lambda>xs.
          and_then (get_col town_data elderly) (\<lambda>ys.
          and_then (get_col town_data ''Town'') (\<lambda>ts. Inr (cells xs, cells ys, cells ts)))))"

fun annotate :: "dataframe \<Rightarrow> string list \<Rightarrow> figure \<Rightarrow> error + figure" where
  "annotate df_plot [] fig = Inr fig"
| "annotate df_plot (town # towns) fig =
     and_then (town_trace df_plot town) (\<lambda>tr. annotate df_plot towns (add_scatter fig tr))"

definition annotated_scatter :: "string list \<Rightarrow> dataframe \<Rightarrow> error + figure" where
  "annotated_scatter towns d =
     and_then (select_cols d [''Town'', family_size, elderly]) (\<lambda>df_plot.
     and_then (px_scatter df_plot family_size elderly ''Town'') (\<lambda>base.
       annotate df_plot towns (base, [])))"

text \<open>
  The multiselect takes the towns of the table as options and six fixed towns as default;
  it raises when a default town is not an option. Its value is the current selection.
\<close>

definition default_towns :: "string list" where
  "default_towns =
     [''Aain El Saydeh'', ''Aabadiyeh'', ''Aachqout'', ''Khreibet Baabda'', ''Aabdine'',
      ''Fourzol'']"

definition multiselect :: "cell list \<Rightarrow> string list \<Rightarrow> string list \<Rightarrow> error + string list" where
  "multiselect options defaults current =
     (if list_all (\<lambda>t. S t \<in> set options) defaults then Inr current
      else Inl StreamlitAPIException)"

definition section_annotation :: "ui \<Rightarrow> state \<Rightarrow> error + state" where
  "section_annotation u st =
     and_then (get_col (df st) ''Town'') (\<lambda>town.
     and_then (multiselect (cells town) default_towns (selected_towns u)) (\<lambda>towns.
     and_then (annotated_scatter towns (df st)) (\<lambda>fig.
       Inr \<lparr>df = df st, charts = charts st @ [Scatter fig]\<rparr>)))"

subsection \<open>Pie chart of one town of the sample\<close>

text \<open>The sample table; its numbers are the integers of the source.\<close>

definition sample_df :: dataframe where
  "sample_df =
     [(''Town'', StrCol [''Town A'', ''Town B'', ''Town C'']),
      (women, NumCol [Finite 55, Finite 60, Finite 65]),
      (men, NumCol [Finite 45, Finite 40, Finite 35])]"

text \<open>\<^verbatim>\<open>d.iloc[0]\<close>: the first row, IndexError when there is none.\<close>

definition iloc0 :: "dataframe \<Rightarrow> error + (string \<times> cell) list" where
  "iloc0 d =
     (if d \<noteq> [] \<and> list_all (\<lambda>(n, c). cells c \<noteq> []) d
      then Inr (map (\<lambda>(n, c). (n, hd (cells c))) d)
      else Inl IndexError)"

definition row_get :: "(string \<times> cell) list \<Rightarrow> string \<Rightarrow> error + cell" where
  "row_get row name = (case map_of row name of None \<Rightarrow> Inl (KeyError [name]) | Some v \<Rightarrow> Inr v)"

definition pie_chart :: "string \<Rightarrow> dataframe \<Rightarrow> error + chart" where
  "pie_chart town d =
     and_then (get_col d ''Town'') (\<lambda>tc.
     and_then (iloc0 (filter_rows (eq_mask tc town) d)) (\<lambda>selected_row.
     and_then (row_get selected_row women) (\<lambda>w.
     and_then (row_get selected_row men) (\<lambda>m.
     and_then (row_get selected_row ''Town'') (\<lambda>t.
       Inr (Pie t [(''Women'', w), (''Men'', m)]))))))"

definition section_pie :: "ui \<Rightarrow> state \<Rightarrow> error + state" where
  "section_pie u st =
     (let d = sample_df
      in and_then (get_col d ''Town'') (\<lambda>options.
           if submit_button u
           then and_then (pie_chart (selected_town u) d) (\<lambda>fig.
                  Inr \<lparr>df = d, charts = charts st @ [fig]\<rparr>)
           else Inr \<lparr>df = d, charts = charts st\<rparr>))"

subsection \<open>Distribution by town: the selected percentage columns, melted\<close>

definition category_flow :: "string list \<Rightarrow> dataframe \<Rightarrow> error + long_row list" where
  "category_flow cols d =
     and_then (select_cols d (''Town'' # cols)) (\<lambda>df_plot. melt ''Town'' df_plot)"

definition section_category :: "ui \<Rightarrow> state \<Rightarrow> error + state" where
  "section_category u st =
     (let d = strip_columns (df st)
      in and_then (category_flow (selected_columns u) d) (\<lambda>df_plot.
           Inr \<lparr>df = d, charts = charts st @ [Bar df_plot]\<rparr>))"

subsection \<open>Average family size against an age group\<close>

text \<open>The second computation of the derived column.\<close>

definition average_family_size_again :: "dataframe \<Rightarrow> error + dataframe" where
  "average_family_size_again d =
     and_then (get_col d bucket1) (\<lambda>a.
     and_then (smul (Finite (3 / 2)) a) (\<lambda>t1.
     and_then (get_col d bucket2) (\<lambda>b.
     and_then (smul (Finite 5) b) (\<lambda>t2.
     and_then (sadd t1 t2) (\<lambda>s12.
     and_then (get_col d bucket3) (\<lambda>c.
     and_then (smul (Finite 7) c) (\<lambda>t3.
     and_then (sadd s12 t3) (\<lambda>numerator.
     and_then (get_col d bucket1) (\<lambda>a'.
     and_then (get_col d bucket2) (\<lambda>b'.
     and_then (sadd a' b') (\<lambda>d12.
     and_then (get_col d bucket3) (\<lambda>c'.
     and_then (sadd d12 c') (\<lambda>denominator.
     and_then (sdiv numerator denominator) (\<lambda>avg.
       Inr (set_col family_size avg d)))))))))))))))"

definition section_age_group :: "ui \<Rightarrow> state \<Rightarrow> error + state" where
  "section_age_group u st =
     and_then (average_family_size_again (df st)) (\<lambda>d.
     and_then (px_scatter d family_size (age_group u) ''Town'') (\<lambda>tr.
       Inr \<lparr>df = d, charts = charts st @ [ScatterByTown tr]\<rparr>))"

subsection \<open>The whole run\<close>

fun run :: "(state \<Rightarrow> error + state) list \<Rightarrow> state \<Rightarrow> state \<times> error option" where
  "run [] st = (st, None)"
| "run (f # fs) st = (case f st of Inl e \<Rightarrow> (st, Some e) | Inr st' \<Rightarrow> run fs st')"

definition dashboard :: "ui \<Rightarrow> dataframe \<Rightarrow> state \<times> error option" where
  "dashboard u loaded =
     run [section_gender u, section_family_size, section_annotation u,
          section_pie u, section_category u, section_age_group u]
         \<lparr>df = loaded, charts = []\<rparr>"


subsection \<open>Example tables\<close>

text \<open>A loaded table of three towns, with every column the script reads.\<close>

definition towns_example :: dataframe where
  "towns_example =
     [(''Town'', StrCol [''Aabadiyeh'', ''Aachqout'', ''Fourzol'']),
      (women, NumCol [Finite 50, Finite 51, Finite 49]),
      (men, NumCol [Finite 50, Finite 49, Finite 51]),
      (youth, NumCol [Finite 20, Finite 18, Finite 22]),
      (elderly, NumCol [Finite 10, Finite 12, Finite 9]),
      (bucket1, NumCol [Finite 2, Finite 0, Finite 1]),
      (bucket2, NumCol [Finite 0, Finite 0, Finite 2]),
      (bucket3, NumCol [Finite 0, Finite 0, Finite 1])]"

text \<open>The same table with its derived column.\<close>

definition derived_example :: dataframe where
  "derived_example =
     towns_example @ [(family_size, NumCol [Finite (3 / 2), NaN, Finite (37 / 8)])]"

text \<open>A town whose first bucket is the float64 nearest to 1.4
  (\<^verbatim>\<open>0x1.6666666666666p+0\<close>) and whose other buckets are zero.\<close>

definition rounding_example :: dataframe where
  "rounding_example =
     [(''Town'', StrCol [''Aabadiyeh'']),
      (bucket1, NumCol [Finite (3152519739159347 / 2251799813685248)]),
      (bucket2, NumCol [Finite 0]),
      (bucket3, NumCol [Finite 0])]"

text \<open>The widgets as the page first shows them, with the form submitted for Town B and
  one town of the example table picked for annotation.\<close>

definition ui_example :: ui where
  "ui_example =
     \<lparr>num_towns = 70, selected_towns = [''Fourzol''], selected_town = ''Town B'',
      submit_button = True, selected_columns = [women, men], age_group = youth\<rparr>"

text \<open>A loaded table that holds the six default towns of the annotation multiselect.\<close>

definition six_towns :: dataframe where
  "six_towns =
     [(''Town'', StrCol [''Aain El Saydeh'', ''Aabadiyeh'', ''Aachqout'', ''Khreibet Baabda'',
                         ''Aabdine'', ''Fourzol'']),
      (women, NumCol [Finite 50, Finite 51, Finite 49, Finite 52, Finite 48, Finite 50]),
      (men, NumCol [Finite 50, Finite 49, Finite 51, Finite 48, Finite 52, Finite 50]),
      (youth, NumCol [Finite 20, Finite 18, Finite 22, Finite 19, Finite 21, Finite 17]),
      (elderly, NumCol [Finite 10, Finite 12, Finite 9, Finite 11, Finite 8, Finite 13]),
      (bucket1, NumCol [Finite 2, Finite 1, Finite 0, Finite 0, Finite 1, Finite 3]),
      (bucket2, NumCol [Finite 0, Finite 1, Finite 1, Finite 0, Finite 2, Finite 3]),
      (bucket3, NumCol [Finite 0, Finite 1, Finite 0, Finite 3, Finite 1, Finite 0])]"

text \<open>The same table with its derived column.\<close>

definition six_towns_derived :: dataframe where
  "six_towns_derived =
     six_towns @ [(family_size, NumCol [Finite (3 / 2), Finite (9 / 2), Finite 5, Finite 7,
                                        Finite (37 / 8), Finite (13 / 4)])]"

text \<open>The widgets as the page first shows them: 70 towns, the six default towns, the first
  town of the form and the form not submitted, the two default categories, the first age
  group.\<close>

definition ui_first :: ui where
  "ui_first =
     \<lparr>num_towns = 70, selected_towns = default_towns, selected_town = ''Town A'',
      submit_button = False, selected_columns = [women, men], age_group = youth\<rparr>"

section \<open>Facts about rounding\<close>

lemma two_powi_pos: "0 < (2::rat) powi e"
  by (simp add: power_int_def)

lemma two_powi_le_iff: "(2::rat) powi a \<le> 2 powi b \<longleftrightarrow> a \<le> b"
proof
  assume h: "(2::rat) powi a \<le> 2 powi b"
  show "a \<le> b"
  proof (rule ccontr)
    assume "\<not> a \<le> b"
    then have "b < a" by simp
    then have "(2::rat) powi b < 2 powi a" by (rule power_int_strict_increasing) simp
    with h show False by simp
  qed
next
  assume "a \<le> b"
  then show "(2::rat) powi a \<le> 2 powi b" by (rule power_int_increasing) simp
qed

lemma expo_search_unique:
  "- 1022 \<le> e \<Longrightarrow> e \<le> int k - 1022 \<Longrightarrow> (- 1022 < e \<Longrightarrow> 2 powi e \<le> q) \<Longrightarrow> q < 2 powi (e + 1)
     \<Longrightarrow> expo_search k q = e"
proof (induction k)
  case 0
  then show ?case by simp
next
  case (Suc k)
  show ?case
  proof (cases "2 powi (int (Suc k) - 1022) \<le> q")
    case True
    with Suc.prems(4) have "(2::rat) powi (int (Suc k) - 1022) < 2 powi (e + 1)" by simp
    then have "\<not> (2::rat) powi (e + 1) \<le> 2 powi (int (Suc k) - 1022)" by simp
    then have "int (Suc k) - 1022 < e + 1" unfolding two_powi_le_iff by simp
    with Suc.prems(2) have "e = int (Suc k) - 1022" by simp
    with True show ?thesis by simp
  next
    case False
    have "e \<noteq> int (Suc k) - 1022"
    proof
      assume eq: "e = int (Suc k) - 1022"
      then have "- 1022 < e" by simp
      then have "2 powi e \<le> q" by (rule Suc.prems(3))
      with False eq show False by simp
    qed
    with Suc.prems(2) have "e \<le> int k - 1022" by simp
    from Suc.IH [OF Suc.prems(1) this Suc.prems(3) Suc.prems(4)] False show ?thesis by simp
  qed
qed

lemma expo_unique:
  "- 1022 \<le> e \<Longrightarrow> e \<le> 1023 \<Longrightarrow> (- 1022 < e \<Longrightarrow> 2 powi e \<le> q) \<Longrightarrow> q < 2 powi (e + 1) \<Longrightarrow> expo q = e"
  unfolding expo_def by (rule expo_search_unique) simp_all

lemma round_even_of_int: "round_even (of_int k) = k"
  by (simp add: round_even_def)

lemma round_even_ge: "of_int k \<le> x \<Longrightarrow> k \<le> round_even x"
proof -
  assume "of_int k \<le> x"
  then have "k \<le> \<lfloor>x\<rfloor>" by (simp add: le_floor_iff)
  then show ?thesis by (simp add: round_even_def Let_def)
qed

lemma round_even_le: "x \<le> of_int k \<Longrightarrow> round_even x \<le> k"
proof -
  assume h: "x \<le> of_int k"
  show ?thesis
  proof (cases "x = of_int k")
    case True
    then show ?thesis by (simp add: round_even_of_int)
  next
    case False
    with h have "x < of_int k" by simp
    then have "\<lfloor>x\<rfloor> < k" by (simp add: floor_less_iff)
    then show ?thesis by (simp add: round_even_def Let_def)
  qed
qed

lemma two_powi_add: "(2::rat) powi (a + b) = 2 powi a * 2 powi b"
  by (simp add: power_int_add)

lemma two_powi_nat: "(2::rat) powi int n = of_int (2 ^ n)"
  by simp

lemma fround_pos_gen:
  assumes "0 < q" "- 1022 \<le> e" "e \<le> 1023" "- 1022 < e \<Longrightarrow> 2 powi e \<le> q" "q < 2 powi (e + 1)"
  shows "fround q =
     (let r = of_int (round_even (q / 2 powi (e - 52))) * 2 powi (e - 52)
      in if 2 powi 1024 \<le> r then PInf else Finite r)"
proof -
  have "expo q = e" using assms(2-5) by (rule expo_unique)
  then show ?thesis using assms(1) by (simp add: fround_def round_mag_def Let_def)
qed

lemma fround_pos:
  assumes "0 < q" "- 1022 \<le> e" "e \<le> 1022" "- 1022 < e \<Longrightarrow> 2 powi e \<le> q" "q < 2 powi (e + 1)"
  shows "fround q = Finite (of_int (round_even (q / 2 powi (e - 52))) * 2 powi (e - 52))"
proof -
  let ?u = "(2::rat) powi (e - 52)"
  have upos: "0 < ?u" by (rule two_powi_pos)
  have split: "(2::rat) powi (e + 1) = of_int (2 ^ 53) * ?u"
  proof -
    have "e + 1 = 53 + (e - 52)" by simp
    then have "(2::rat) powi (e + 1) = 2 powi 53 * ?u" by (simp only: two_powi_add)
    then show ?thesis by simp
  qed
  have "q / ?u \<le> of_int (2 ^ 53)"
    using assms(5) upos unfolding split by (simp add: pos_divide_le_eq)
  then have "round_even (q / ?u) \<le> 2 ^ 53" by (rule round_even_le)
  then have "(of_int (round_even (q / ?u)) :: rat) \<le> of_int (2 ^ 53)" by (simp only: of_int_le_iff)
  then have "of_int (round_even (q / ?u)) * ?u \<le> of_int (2 ^ 53) * ?u"
    using upos by (simp only: mult_le_cancel_right_pos)
  also have "\<dots> = 2 powi (e + 1)" by (simp only: split)
  also have "\<dots> < 2 powi 1024" using assms(3) by (intro power_int_strict_increasing) simp_all
  finally have "\<not> 2 powi 1024 \<le> of_int (round_even (q / ?u)) * ?u" by simp
  moreover have "e \<le> 1023" using assms(3) by simp
  ultimately show ?thesis
    using fround_pos_gen [OF assms(1) assms(2) _ assms(4) assms(5)] by (simp add: Let_def)
qed

lemma half_int_binade:
  assumes "0 < m" "m < 2 ^ 53"
  shows "\<exists>e. - 1 \<le> e \<and> e \<le> 51 \<and> 2 powi e \<le> (of_int m / 2 :: rat) \<and> (of_int m / 2 :: rat) < 2 powi (e + 1)"
proof -
  let ?b = "bitlen m"
  from bitlen_bounds [OF assms(1)]
  have lo: "2 ^ nat (?b - 1) \<le> m" and hi: "m < 2 ^ nat ?b" by simp_all
  have bpos: "1 \<le> ?b" using assms(1) by (simp add: bitlen_def floorlog_def)
  have b53: "?b \<le> 53"
  proof (rule ccontr)
    assume "\<not> ?b \<le> 53"
    then have "53 \<le> nat (?b - 1)" by simp
    then have "(2::int) ^ 53 \<le> 2 ^ nat (?b - 1)" by (rule power_increasing) simp
    with lo assms(2) show False by simp
  qed
  have lo': "(2::rat) powi (?b - 1) \<le> of_int m"
  proof -
    have "(of_int (2 ^ nat (?b - 1)) :: rat) \<le> of_int m" using lo by (simp only: of_int_le_iff)
    moreover have "(2::rat) powi (?b - 1) = of_int (2 ^ nat (?b - 1))"
      using bpos by (simp add: power_int_def)
    ultimately show ?thesis by simp
  qed
  have hi': "of_int m < (2::rat) powi ?b"
  proof -
    have "(of_int m :: rat) < of_int (2 ^ nat ?b)" using hi by (simp only: of_int_less_iff)
    moreover have "(2::rat) powi ?b = of_int (2 ^ nat ?b)"
      using bpos by (simp add: power_int_def)
    ultimately show ?thesis by simp
  qed
  have s1: "(2::rat) powi (?b - 1) = 2 * 2 powi (?b - 2)"
    using two_powi_add [of 1 "?b - 2"] by simp
  have s2: "(2::rat) powi ?b = 2 * 2 powi (?b - 2 + 1)"
    using two_powi_add [of 1 "?b - 2 + 1"] by simp
  have "2 powi (?b - 2) \<le> (of_int m / 2 :: rat)" using lo' s1 by simp
  moreover have "(of_int m / 2 :: rat) < 2 powi (?b - 2 + 1)" using hi' s2 by simp
  ultimately show ?thesis using bpos b53 by (intro exI [of _ "?b - 2"]) simp
qed

lemma fround_half_int:
  assumes "0 < m" "m < 2 ^ 53"
  shows "fround (of_int m / 2) = Finite (of_int m / 2)"
proof -
  let ?q = "of_int m / 2 :: rat"
  from half_int_binade [OF assms] obtain e where
    e: "- 1 \<le> e" "e \<le> 51" "2 powi e \<le> ?q" "?q < 2 powi (e + 1)" by blast
  let ?u = "(2::rat) powi (e - 52)"
  have upos: "0 < ?u" by (rule two_powi_pos)
  have qpos: "0 < ?q" using assms(1) by simp
  have fr: "fround ?q = Finite (of_int (round_even (?q / ?u)) * ?u)"
    using qpos e by (intro fround_pos) simp_all
  have "(1::rat) = 2 powi (51 - e) * 2 * ?u"
    using two_powi_add [of "51 - e" "1 + (e - 52)"] two_powi_add [of 1 "e - 52"] by simp
  moreover have "(2::rat) powi (51 - e) = of_int (2 ^ nat (51 - e))"
    using e(2) by (simp add: power_int_def)
  ultimately have one: "(1::rat) = of_int (2 ^ nat (51 - e)) * 2 * ?u" by simp
  have "?q = ?q * (of_int (2 ^ nat (51 - e)) * 2 * ?u)" using one by simp
  also have "\<dots> = of_int (m * 2 ^ nat (51 - e)) * ?u" by simp
  finally have q: "?q = of_int (m * 2 ^ nat (51 - e)) * ?u" .
  then have "?q / ?u = of_int (m * 2 ^ nat (51 - e))" using upos by (simp add: field_simps)
  then have "round_even (?q / ?u) = m * 2 ^ nat (51 - e)" by (simp only: round_even_of_int)
  with fr have "fround ?q = Finite (of_int (m * 2 ^ nat (51 - e)) * ?u)" by (simp only:)
  then show ?thesis by (simp only: q [symmetric])
qed

lemma fadd_half_int:
  assumes "0 \<le> k" "0 \<le> l" "k + l < 2 ^ 53"
  shows "fadd (Finite (of_int k / 2)) (Finite (of_int l / 2)) = Finite (of_int (k + l) / 2)"
proof (cases "k + l = 0")
  case True
  with assms have "k = 0" "l = 0" by simp_all
  then show ?thesis by (simp add: fadd_def)
next
  case False
  with assms have "0 < k + l" by simp
  from fround_half_int [OF this assms(3)] False
  show ?thesis by (simp add: fadd_def Let_def add_divide_distrib)
qed

lemma fmul_half_int:
  assumes "0 < c" "0 \<le> n" "c * n < 2 ^ 53"
  shows "fmul (Finite (of_int c / 2)) (Finite (of_int n)) = Finite (of_int (c * n) / 2)"
proof (cases "n = 0")
  case True
  then show ?thesis using assms(1) by (simp add: fmul_def signed_zero_def)
next
  case False
  with assms have "0 < c * n" by simp
  from fround_half_int [OF this assms(3)] False assms(1)
  show ?thesis by (simp add: fmul_def)
qed

lemma fround_scaled:
  assumes "0 < q" "- 1022 \<le> e" "e \<le> 1022" "2 powi e \<le> q" "q < 2 powi (e + 1)"
    and "of_int lo * 2 powi (e - 52) \<le> q" "q \<le> of_int hi * 2 powi (e - 52)"
  shows "\<exists>r. fround q = Finite r \<and> of_int lo * 2 powi (e - 52) \<le> r \<and> r \<le> of_int hi * 2 powi (e - 52)"
proof -
  let ?u = "(2::rat) powi (e - 52)"
  have upos: "0 < ?u" by (rule two_powi_pos)
  have fr: "fround q = Finite (of_int (round_even (q / ?u)) * ?u)"
    using assms(1-5) by (intro fround_pos) simp_all
  have "of_int lo \<le> q / ?u" using assms(6) upos by (simp add: pos_le_divide_eq)
  then have "lo \<le> round_even (q / ?u)" by (rule round_even_ge)
  then have "(of_int lo :: rat) \<le> of_int (round_even (q / ?u))" by (simp only: of_int_le_iff)
  then have a: "of_int lo * ?u \<le> of_int (round_even (q / ?u)) * ?u"
    using upos by (simp only: mult_le_cancel_right_pos)
  have "q / ?u \<le> of_int hi" using assms(7) upos by (simp add: pos_divide_le_eq)
  then have "round_even (q / ?u) \<le> hi" by (rule round_even_le)
  then have "(of_int (round_even (q / ?u)) :: rat) \<le> of_int hi" by (simp only: of_int_le_iff)
  then have b: "of_int (round_even (q / ?u)) * ?u \<le> of_int hi * ?u"
    using upos by (simp only: mult_le_cancel_right_pos)
  from fr a b show ?thesis by blast
qed

lemma fround_between:
  assumes "0 < q" "- 1022 \<le> e" "e \<le> 1022" "2 powi e \<le> q" "q < 2 powi (e + 1)"
    and "L = of_int lo * 2 powi (e - 52)" "H = of_int hi * 2 powi (e - 52)"
    and "L \<le> q" "q \<le> H"
  shows "\<exists>r. fround q = Finite r \<and> L \<le> r \<and> r \<le> H"
  using fround_scaled [OF assms(1-5), of lo hi] assms(6-9) by simp

lemma fround_mean_range:
  assumes "3 / 2 \<le> q" "q \<le> 7"
  shows "\<exists>r. fround q = Finite r \<and> 3 / 2 \<le> r \<and> r \<le> 7
           \<and> (3 / 2 + 1 / 2 ^ 52 \<le> q \<longrightarrow> 3 / 2 + 1 / 2 ^ 52 \<le> r)
           \<and> (q \<le> 7 - 1 / 2 ^ 50 \<longrightarrow> r \<le> 7 - 1 / 2 ^ 50)"
proof -
  have qpos: "0 < q" using assms(1) by simp
  consider (a) "q < 3 / 2 + 1 / 2 ^ 52" | (b) "3 / 2 + 1 / 2 ^ 52 \<le> q" "q < 2" | (c) "2 \<le> q" "q < 4"
    | (d) "4 \<le> q" "q \<le> 7 - 1 / 2 ^ 50" | (e) "7 - 1 / 2 ^ 50 < q"
    by linarith
  then show ?thesis
  proof cases
    case a
    have "\<exists>r. fround q = Finite r \<and> 3 / 2 \<le> r \<and> r \<le> 2"
      using qpos assms a
      by (intro fround_between [where e = 0 and lo = "3 * 2 ^ 51" and hi = "2 ^ 53"])
         (simp_all add: power_int_def power_divide)
    then obtain r where "fround q = Finite r" "3 / 2 \<le> r" "r \<le> 2" by blast
    with a show ?thesis by (intro exI [of _ r]) simp
  next
    case b
    have "\<exists>r. fround q = Finite r \<and> 3 / 2 + 1 / 2 ^ 52 \<le> r \<and> r \<le> 2"
      using qpos assms b
      by (intro fround_between [where e = 0 and lo = "3 * 2 ^ 51 + 1" and hi = "2 ^ 53"])
         (simp_all add: power_int_def power_divide)
    then obtain r where "fround q = Finite r" "3 / 2 + 1 / 2 ^ 52 \<le> r" "r \<le> 2" by blast
    then show ?thesis by (intro exI [of _ r]) simp
  next
    case c
    have "\<exists>r. fround q = Finite r \<and> 2 \<le> r \<and> r \<le> 4"
      using qpos assms c
      by (intro fround_between [where e = 1 and lo = "2 ^ 52" and hi = "2 ^ 53"])
         (simp_all add: power_int_def power_divide)
    then obtain r where "fround q = Finite r" "2 \<le> r" "r \<le> 4" by blast
    then show ?thesis by (intro exI [of _ r]) simp
  next
    case d
    have "\<exists>r. fround q = Finite r \<and> 4 \<le> r \<and> r \<le> 7 - 1 / 2 ^ 50"
      using qpos assms d
      by (intro fround_between [where e = 2 and lo = "2 ^ 52" and hi = "7 * 2 ^ 50 - 1"])
         (simp_all add: power_int_def power_divide)
    then obtain r where "fround q = Finite r" "4 \<le> r" "r \<le> 7 - 1 / 2 ^ 50" by blast
    then show ?thesis by (intro exI [of _ r]) simp
  next
    case e
    have "\<exists>r. fround q = Finite r \<and> 4 \<le> r \<and> r \<le> 7"
      using qpos assms e
      by (intro fround_between [where e = 2 and lo = "2 ^ 52" and hi = "7 * 2 ^ 50"])
         (simp_all add: power_int_def power_divide)
    then obtain r where "fround q = Finite r" "4 \<le> r" "r \<le> 7" by blast
    with e show ?thesis by (intro exI [of _ r]) simp
  qed
qed


text \<open>The error of the rounding: at most one part in \<open>2 ^ 53\<close>, and none for a value
  that is a multiple of the unit in the last place.\<close>

lemma round_even_error: "\<bar>of_int (round_even x) - x\<bar> \<le> 1 / 2"
proof -
  have "of_int \<lfloor>x\<rfloor> \<le> x" "x < of_int \<lfloor>x\<rfloor> + 1" by linarith+
  then show ?thesis by (auto simp: round_even_def Let_def)
qed

lemma fround_error:
  assumes "0 < q" "- 1022 \<le> e" "e \<le> 1022" "2 powi e \<le> q" "q < 2 powi (e + 1)"
  shows "\<exists>r. fround q = Finite r \<and> \<bar>r - q\<bar> \<le> q / 2 ^ 53
           \<and> (\<forall>k. q = of_int k * 2 powi (e - 52) \<longrightarrow> r = q)"
proof -
  let ?u = "(2::rat) powi (e - 52)"
  let ?r = "of_int (round_even (q / ?u)) * ?u"
  have upos: "0 < ?u" by (rule two_powi_pos)
  have fr: "fround q = Finite ?r"
    using assms by (intro fround_pos) simp_all
  have "\<bar>?r - q\<bar> = \<bar>of_int (round_even (q / ?u)) - q / ?u\<bar> * ?u"
  proof -
    have "?r - q = (of_int (round_even (q / ?u)) - q / ?u) * ?u"
      using upos by (simp add: algebra_simps)
    then show ?thesis using upos by (simp add: abs_mult)
  qed
  also have "\<dots> \<le> 1 / 2 * ?u"
    using round_even_error [of "q / ?u"] upos by (intro mult_right_mono) simp_all
  also have "1 / 2 * ?u = 2 powi e / 2 ^ 53"
  proof -
    have "e = 53 + (e - 52) - 1" by simp
    then have "(2::rat) powi e = 2 powi (53 + (e - 52) - 1)" by simp
    also have "\<dots> = 2 powi 53 * ?u / 2"
      by (simp add: power_int_diff power_int_add)
    finally show ?thesis by simp
  qed
  also have "\<dots> \<le> q / 2 ^ 53" using assms(4) by (simp add: divide_right_mono)
  finally have err: "\<bar>?r - q\<bar> \<le> q / 2 ^ 53" .
  have ex: "?r = q" if "q = of_int k * ?u" for k
  proof -
    from that upos have "q / ?u = of_int k" by simp
    then have "round_even (q / ?u) = k" by (simp only: round_even_of_int)
    with that show ?thesis by simp
  qed
  from fr err ex show ?thesis by blast
qed

lemma fround_mean_error:
  assumes "3 / 2 \<le> q" "q \<le> 7"
  shows "\<exists>r. fround q = Finite r \<and> \<bar>r - q\<bar> \<le> q / 2 ^ 53
           \<and> ((\<exists>k. q * 2 ^ 50 = of_int k) \<longrightarrow> r = q)"
proof -
  have qpos: "0 < q" using assms(1) by simp
  consider (a) "q < 2" | (b) "2 \<le> q" "q < 4" | (c) "4 \<le> q" by linarith
  then show ?thesis
  proof cases
    case a
    have "\<exists>r. fround q = Finite r \<and> \<bar>r - q\<bar> \<le> q / 2 ^ 53
           \<and> (\<forall>k. q = of_int k * 2 powi (0 - 52) \<longrightarrow> r = q)"
      using qpos assms a by (intro fround_error) (simp_all add: power_int_def)
    then obtain r where r: "fround q = Finite r" "\<bar>r - q\<bar> \<le> q / 2 ^ 53"
      "\<forall>k. q = of_int k * 2 powi (0 - 52) \<longrightarrow> r = q" by blast
    have "r = q" if "q * 2 ^ 50 = of_int k" for k
    proof -
      from that have "q = of_int (k * 4) * 2 powi (0 - 52)"
        by (simp add: power_int_def power_divide field_simps)
      with r(3) show ?thesis by blast
    qed
    with r(1,2) show ?thesis by blast
  next
    case b
    have "\<exists>r. fround q = Finite r \<and> \<bar>r - q\<bar> \<le> q / 2 ^ 53
           \<and> (\<forall>k. q = of_int k * 2 powi (1 - 52) \<longrightarrow> r = q)"
      using qpos assms b by (intro fround_error) (simp_all add: power_int_def)
    then obtain r where r: "fround q = Finite r" "\<bar>r - q\<bar> \<le> q / 2 ^ 53"
      "\<forall>k. q = of_int k * 2 powi (1 - 52) \<longrightarrow> r = q" by blast
    have "r = q" if "q * 2 ^ 50 = of_int k" for k
    proof -
      from that have "q = of_int (k * 2) * 2 powi (1 - 52)"
        by (simp add: power_int_def power_divide field_simps)
      with r(3) show ?thesis by blast
    qed
    with r(1,2) show ?thesis by blast
  next
    case c
    have "\<exists>r. fround q = Finite r \<and> \<bar>r - q\<bar> \<le> q / 2 ^ 53
           \<and> (\<forall>k. q = of_int k * 2 powi (2 - 52) \<longrightarrow> r = q)"
      using qpos assms c by (intro fround_error) (simp_all add: power_int_def)
    then obtain r where r: "fround q = Finite r" "\<bar>r - q\<bar> \<le> q / 2 ^ 53"
      "\<forall>k. q = of_int k * 2 powi (2 - 52) \<longrightarrow> r = q" by blast
    have "r = q" if "q * 2 ^ 50 = of_int k" for k
    proof -
      from that have "q = of_int k * 2 powi (2 - 52)"
        by (simp add: power_int_def power_divide field_simps)
      with r(3) show ?thesis by blast
    qed
    with r(1,2) show ?thesis by blast
  qed
qed

section \<open>Facts about tables\<close>

lemma and_then_Inr [simp]: "and_then (Inr x) f = f x"
  by (simp add: and_then_def)

lemma and_then_Inl [simp]: "and_then (Inl e) f = Inl e"
  by (simp add: and_then_def)

lemma get_col_Some: "map_of d name = Some c \<Longrightarrow> get_col d name = Inr c"
  by (simp add: get_col_def)

lemma get_col_None: "map_of d name = None \<Longrightarrow> get_col d name = Inl (KeyError [name])"
  by (simp add: get_col_def)

lemma numbers_NumCol [simp]: "numbers (NumCol xs) = Inr xs"
  by (simp add: numbers_def)

lemma map_of_set_col: "map_of (set_col name col d) name = Some col"
  by (induction d) auto

lemma map_of_set_col_other: "n \<noteq> name \<Longrightarrow> map_of (set_col name col d) n = map_of d n"
  by (induction d) auto

lemma wf_col_length:
  assumes "wf_df d" "map_of d name = Some c"
  shows "length (cells c) = nrows d"
proof -
  from assms(2) have "(name, c) \<in> set d" by (rule map_of_SomeD)
  with assms(1) show ?thesis by (auto simp: wf_df_def list_all_iff)
qed

lemma avg_column:
  assumes "length b2 = length b1" "length b3 = length b1"
  shows "map (\<lambda>(x, y). fdiv x y)
           (zip (map (\<lambda>(x, y). fadd x y)
                   (zip (map (\<lambda>(x, y). fadd x y)
                           (zip (map (fmul (Finite (3 / 2))) b1) (map (fmul (Finite 5)) b2)))
                        (map (fmul (Finite 7)) b3)))
                (map (\<lambda>(x, y). fadd x y) (zip (map (\<lambda>(x, y). fadd x y) (zip b1 b2)) b3)))
         = map (\<lambda>i. weighted_mean (b1 ! i) (b2 ! i) (b3 ! i)) [0..<length b1]"
  using assms by (intro nth_equalityI) (simp_all add: weighted_mean_def)

lemma average_family_size_numeric:
  assumes "map_of d bucket1 = Some (NumCol b1)" "map_of d bucket2 = Some (NumCol b2)"
    "map_of d bucket3 = Some (NumCol b3)" "length b2 = length b1" "length b3 = length b1"
  shows "average_family_size d =
     Inr (set_col family_size
            (NumCol (map (\<lambda>i. weighted_mean (b1 ! i) (b2 ! i) (b3 ! i)) [0..<length b1])) d)"
  using assms(1-3) avg_column [OF assms(4,5)]
  by (simp add: average_family_size_def get_col_Some smul_def sadd_def sdiv_def)

lemma derived_column:
  assumes "wf_df d" "get_col d bucket1 = Inr (NumCol b1)" "get_col d bucket2 = Inr (NumCol b2)"
    "get_col d bucket3 = Inr (NumCol b3)"
  shows "\<exists>d' avg. average_family_size d = Inr d' \<and> get_col d' family_size = Inr (NumCol avg)
           \<and> length avg = nrows d
           \<and> (\<forall>i < nrows d. avg ! i = weighted_mean (b1 ! i) (b2 ! i) (b3 ! i))"
proof -
  from assms(2-4) have m: "map_of d bucket1 = Some (NumCol b1)" "map_of d bucket2 = Some (NumCol b2)"
    "map_of d bucket3 = Some (NumCol b3)"
    by (auto simp: get_col_def split: option.splits)
  from wf_col_length [OF assms(1)] m have l: "length b1 = nrows d" "length b2 = nrows d" "length b3 = nrows d"
    by fastforce+
  let ?avg = "map (\<lambda>i. weighted_mean (b1 ! i) (b2 ! i) (b3 ! i)) [0..<length b1]"
  have "average_family_size d = Inr (set_col family_size (NumCol ?avg) d)"
    using m l by (intro average_family_size_numeric) simp_all
  moreover have "get_col (set_col family_size (NumCol ?avg) d) family_size = Inr (NumCol ?avg)"
    by (simp add: get_col_def map_of_set_col)
  moreover have "length ?avg = nrows d" using l by simp
  moreover have "\<forall>i < nrows d. ?avg ! i = weighted_mean (b1 ! i) (b2 ! i) (b3 ! i)"
    using l by simp
  ultimately show ?thesis by blast
qed

section \<open>The weighted mean of one town\<close>

lemma fmul_const_count:
  assumes "0 < c" "c * int n < 2 ^ 53"
  shows "fmul (Finite (of_int c / 2)) (Finite (of_nat n)) = Finite (of_int (c * int n) / 2)"
  using fmul_half_int [of c "int n"] assms by simp

lemma count_bound_int:
  assumes "n < (2::nat) ^ 48"
  shows "int n < 2 ^ 48"
proof -
  have "int n < int (2 ^ 48)" using assms by (simp only: of_nat_less_iff)
  then show ?thesis by simp
qed

lemma count_bound_rat:
  assumes "n < (2::nat) ^ 48"
  shows "(of_nat n :: rat) < 2 ^ 48"
proof -
  have "(of_nat n :: rat) < of_nat (2 ^ 48)" using assms by (simp only: of_nat_less_iff)
  then show ?thesis by simp
qed

lemma weighted_mean_counts_value:
  assumes "n1 < 2 ^ 48" "n2 < 2 ^ 48" "n3 < 2 ^ 48" "0 < n1 + n2 + n3"
  shows "weighted_mean (Finite (of_nat n1)) (Finite (of_nat n2)) (Finite (of_nat n3)) =
     fround ((3 / 2 * of_nat n1 + 5 * of_nat n2 + 7 * of_nat n3) / (of_nat n1 + of_nat n2 + of_nat n3))"
proof -
  have b: "int n1 < 2 ^ 48" "int n2 < 2 ^ 48" "int n3 < 2 ^ 48"
    using assms(1-3) by (simp_all only: count_bound_int)
  have t1: "fmul (Finite (3 / 2)) (Finite (of_nat n1)) = Finite (of_int (3 * int n1) / 2)"
    using fmul_const_count [of 3 n1] b by simp
  have t2: "fmul (Finite 5) (Finite (of_nat n2)) = Finite (of_int (10 * int n2) / 2)"
    using fmul_const_count [of 10 n2] b by simp
  have t3: "fmul (Finite 7) (Finite (of_nat n3)) = Finite (of_int (14 * int n3) / 2)"
    using fmul_const_count [of 14 n3] b by simp
  have s12: "fadd (Finite (of_int (3 * int n1) / 2)) (Finite (of_int (10 * int n2) / 2))
      = Finite (of_int (3 * int n1 + 10 * int n2) / 2)"
    using b by (intro fadd_half_int) simp_all
  have num: "fadd (Finite (of_int (3 * int n1 + 10 * int n2) / 2)) (Finite (of_int (14 * int n3) / 2))
      = Finite (of_int (3 * int n1 + 10 * int n2 + 14 * int n3) / 2)"
    using b by (intro fadd_half_int) simp_all
  have d12: "fadd (Finite (of_nat n1)) (Finite (of_nat n2)) = Finite (of_int (2 * int n1 + 2 * int n2) / 2)"
    using fadd_half_int [of "2 * int n1" "2 * int n2"] b by simp
  have den: "fadd (Finite (of_int (2 * int n1 + 2 * int n2) / 2)) (Finite (of_nat n3))
      = Finite (of_int (2 * int n1 + 2 * int n2 + 2 * int n3) / 2)"
    using fadd_half_int [of "2 * int n1 + 2 * int n2" "2 * int n3"] b by simp
  let ?N = "of_int (3 * int n1 + 10 * int n2 + 14 * int n3) / 2 :: rat"
  let ?D = "of_int (2 * int n1 + 2 * int n2 + 2 * int n3) / 2 :: rat"
  have "0 < 2 * int n1 + 2 * int n2 + 2 * int n3" using assms(4) by linarith
  then have Dpos: "0 < ?D" by (simp only: zero_less_divide_iff of_int_0_less_iff) simp
  have "0 < 3 * int n1 + 10 * int n2 + 14 * int n3" using assms(4) by linarith
  then have Npos: "0 < ?N" by (simp only: zero_less_divide_iff of_int_0_less_iff) simp
  have "weighted_mean (Finite (of_nat n1)) (Finite (of_nat n2)) (Finite (of_nat n3)) = fdiv (Finite ?N) (Finite ?D)"
    by (simp only: weighted_mean_def t1 t2 t3 s12 num d12 den)
  also have "\<dots> = fround (?N / ?D)" using Dpos Npos by (simp add: fdiv_def)
  also have "?N / ?D = (3 / 2 * of_nat n1 + 5 * of_nat n2 + 7 * of_nat n3) / (of_nat n1 + of_nat n2 + of_nat n3)"
  proof -
    have N: "?N = 3 / 2 * of_nat n1 + 5 * of_nat n2 + 7 * of_nat n3"
      by (simp add: add_divide_distrib)
    have D: "?D = of_nat n1 + of_nat n2 + of_nat n3"
      by (simp add: add_divide_distrib)
    show ?thesis by (simp only: N D)
  qed
  finally show ?thesis .
qed

lemma weighted_mean_counts:
  assumes "n1 < 2 ^ 48" "n2 < 2 ^ 48" "n3 < 2 ^ 48" "0 < n1 + n2 + n3"
  shows "\<exists>r. weighted_mean (Finite (of_nat n1)) (Finite (of_nat n2)) (Finite (of_nat n3)) = Finite r
           \<and> 3 / 2 \<le> r \<and> r \<le> 7
           \<and> (r = 3 / 2 \<longleftrightarrow> n2 = 0 \<and> n3 = 0)
           \<and> (r = 7 \<longleftrightarrow> n1 = 0 \<and> n2 = 0)"
proof -
  define x1 x2 x3 :: rat where "x1 = of_nat n1" and "x2 = of_nat n2" and "x3 = of_nat n3"
  let ?D = "x1 + x2 + x3"
  let ?q = "(3 / 2 * x1 + 5 * x2 + 7 * x3) / ?D"
  have nn: "0 \<le> x1" "0 \<le> x2" "0 \<le> x3" by (simp_all add: x1_def x2_def x3_def)
  have ub: "x1 < 2 ^ 48" "x2 < 2 ^ 48" "x3 < 2 ^ 48"
    using assms(1-3) unfolding x1_def x2_def x3_def by (simp_all only: count_bound_rat)
  have Dpos: "0 < ?D"
  proof -
    have "(0::rat) < of_nat (n1 + n2 + n3)" using assms(4) by (simp only: of_nat_0_less_iff)
    then show ?thesis by (simp add: x1_def x2_def x3_def)
  qed
  have wm: "weighted_mean (Finite x1) (Finite x2) (Finite x3) = fround ?q"
    unfolding x1_def x2_def x3_def using assms by (rule weighted_mean_counts_value)
  have lo: "3 / 2 \<le> ?q" using nn Dpos by (simp add: pos_le_divide_eq)
  have hi: "?q \<le> 7" using nn Dpos by (simp add: pos_divide_le_eq)
  from fround_mean_range [OF lo hi] obtain r where
    r: "fround ?q = Finite r" "3 / 2 \<le> r" "r \<le> 7"
      "3 / 2 + 1 / 2 ^ 52 \<le> ?q \<longrightarrow> 3 / 2 + 1 / 2 ^ 52 \<le> r"
      "?q \<le> 7 - 1 / 2 ^ 50 \<longrightarrow> r \<le> 7 - 1 / 2 ^ 50"
    by blast
  have low_iff: "r = 3 / 2 \<longleftrightarrow> n2 = 0 \<and> n3 = 0"
  proof
    assume "n2 = 0 \<and> n3 = 0"
    then have z: "x2 = 0" "x3 = 0" by (simp_all add: x2_def x3_def)
    with Dpos have q: "?q = 3 / 2" by simp
    have f: "fround (3 / 2) = Finite (3 / 2)" using fround_half_int [of 3] by simp
    from r(1) have "fround (3 / 2) = Finite r" by (simp only: q)
    with f show "r = 3 / 2" by simp
  next
    assume eq: "r = 3 / 2"
    show "n2 = 0 \<and> n3 = 0"
    proof (rule ccontr)
      assume "\<not> (n2 = 0 \<and> n3 = 0)"
      then have "1 \<le> n2 + n3" by linarith
      then have "(of_nat 1 :: rat) \<le> of_nat (n2 + n3)" by (simp only: of_nat_le_iff)
      then have one: "1 \<le> x2 + x3" by (simp add: x2_def x3_def)
      have "(3 / 2 + 1 / 2 ^ 52) * ?D \<le> 3 / 2 * x1 + 5 * x2 + 7 * x3"
        using one nn ub by (simp add: algebra_simps)
      then have "3 / 2 + 1 / 2 ^ 52 \<le> ?q" using Dpos by (simp only: pos_le_divide_eq)
      with r(4) have "3 / 2 + 1 / 2 ^ 52 \<le> r" by simp
      with eq show False by simp
    qed
  qed
  have high_iff: "r = 7 \<longleftrightarrow> n1 = 0 \<and> n2 = 0"
  proof
    assume "n1 = 0 \<and> n2 = 0"
    then have z: "x1 = 0" "x2 = 0" by (simp_all add: x1_def x2_def)
    with Dpos have q: "?q = 7" by simp
    have f: "fround 7 = Finite 7" using fround_half_int [of 14] by simp
    from r(1) have "fround 7 = Finite r" by (simp only: q)
    with f show "r = 7" by simp
  next
    assume eq: "r = 7"
    show "n1 = 0 \<and> n2 = 0"
    proof (rule ccontr)
      assume "\<not> (n1 = 0 \<and> n2 = 0)"
      then have "1 \<le> n1 + n2" by linarith
      then have "(of_nat 1 :: rat) \<le> of_nat (n1 + n2)" by (simp only: of_nat_le_iff)
      then have one: "1 \<le> x1 + x2" by (simp add: x1_def x2_def)
      have "3 / 2 * x1 + 5 * x2 + 7 * x3 \<le> (7 - 1 / 2 ^ 50) * ?D"
        using one nn ub by (simp add: algebra_simps)
      then have "?q \<le> 7 - 1 / 2 ^ 50" using Dpos by (simp only: pos_divide_le_eq)
      with r(5) have "r \<le> 7 - 1 / 2 ^ 50" by simp
      with eq show False by simp
    qed
  qed
  from wm r(1-3) low_iff high_iff show ?thesis
    unfolding x1_def x2_def x3_def by (intro exI [of _ r]) simp
qed

lemma weighted_mean_counts_formula:
  assumes "n1 < 2 ^ 48" "n2 < 2 ^ 48" "n3 < 2 ^ 48" "0 < n1 + n2 + n3"
  shows "\<exists>r. weighted_mean (Finite (of_nat n1)) (Finite (of_nat n2)) (Finite (of_nat n3)) = Finite r
           \<and> \<bar>r - formula_average (of_nat n1) (of_nat n2) (of_nat n3)\<bar>
               \<le> formula_average (of_nat n1) (of_nat n2) (of_nat n3) / 2 ^ 53
           \<and> ((\<exists>k. formula_average (of_nat n1) (of_nat n2) (of_nat n3) * 2 ^ 50 = of_int k)
                \<longrightarrow> r = formula_average (of_nat n1) (of_nat n2) (of_nat n3))"
proof -
  define x1 x2 x3 :: rat where "x1 = of_nat n1" and "x2 = of_nat n2" and "x3 = of_nat n3"
  have nn: "0 \<le> x1" "0 \<le> x2" "0 \<le> x3" by (simp_all add: x1_def x2_def x3_def)
  have Dpos: "0 < x1 + x2 + x3"
  proof -
    have "(0::rat) < of_nat (n1 + n2 + n3)" using assms(4) by (simp only: of_nat_0_less_iff)
    then show ?thesis by (simp add: x1_def x2_def x3_def)
  qed
  have wm: "weighted_mean (Finite x1) (Finite x2) (Finite x3) = fround (formula_average x1 x2 x3)"
    unfolding x1_def x2_def x3_def formula_average_def using assms by (rule weighted_mean_counts_value)
  have lo: "3 / 2 \<le> formula_average x1 x2 x3"
    unfolding formula_average_def using nn Dpos by (simp add: pos_le_divide_eq)
  have hi: "formula_average x1 x2 x3 \<le> 7"
    unfolding formula_average_def using nn Dpos by (simp add: pos_divide_le_eq)
  from fround_mean_error [OF lo hi] wm show ?thesis
    unfolding x1_def x2_def x3_def by simp
qed

lemma is_zero_fmul: "is_zero x \<Longrightarrow> is_zero (fmul (Finite c) x)"
  by (cases x) (simp_all add: fmul_def signed_zero_def)

lemma is_zero_fadd: "is_zero x \<Longrightarrow> is_zero y \<Longrightarrow> is_zero (fadd x y)"
  by (cases x; cases y) (simp_all add: fadd_def)

lemma fdiv_zero_zero: "is_zero x \<Longrightarrow> is_zero y \<Longrightarrow> fdiv x y = NaN"
  by (cases x; cases y) (simp_all add: fdiv_def)

lemma weighted_mean_zero:
  assumes "is_zero b1" "is_zero b2" "is_zero b3"
  shows "weighted_mean b1 b2 b3 = NaN"
  unfolding weighted_mean_def using assms
  by (intro fdiv_zero_zero is_zero_fadd is_zero_fmul)

lemma round_even_near:
  assumes "\<bar>x - of_int k\<bar> < 1 / 2"
  shows "round_even x = k"
proof (cases "of_int k \<le> x")
  case True
  with assms have "\<lfloor>x\<rfloor> = k" by (intro floor_unique) simp_all
  with assms True show ?thesis by (simp add: round_even_def Let_def)
next
  case False
  with assms have "\<lfloor>x\<rfloor> = k - 1" by (intro floor_unique) simp_all
  with assms False show ?thesis by (simp add: round_even_def Let_def)
qed

lemma round_even_tie:
  assumes "x = of_int k + 1 / 2" "even k"
  shows "round_even x = k"
proof -
  from assms(1) have "\<lfloor>x\<rfloor> = k" by (intro floor_unique) simp_all
  with assms show ?thesis by (simp add: round_even_def Let_def)
qed

lemma fround_at:
  assumes "0 < q" "- 1022 \<le> e" "e \<le> 1022" "2 powi e \<le> q" "q < 2 powi (e + 1)"
    "round_even (q / 2 powi (e - 52)) = k" "r = of_int k * 2 powi (e - 52)"
  shows "fround q = Finite r"
  using fround_pos [of q e] assms by simp

text \<open>
  Two values of the rounding: the float64 nearest to one tenth, and a product beyond
  the largest finite float64, which is infinite.
\<close>

lemma fround_one_tenth: "fround (1 / 10) = Finite (3602879701896397 / 36028797018963968)"
proof (rule fround_at [where e = "- 4" and k = 7205759403792794])
  show "round_even (1 / 10 / 2 powi (- 4 - 52)) = 7205759403792794"
    by (rule round_even_near) (simp add: power_int_def power_divide)
qed (simp_all add: power_int_def power_divide)

lemma expo_search_top:
  "2 powi (int (Suc k) - 1022) \<le> q \<Longrightarrow> expo_search (Suc k) q = int (Suc k) - 1022"
  by simp

lemma expo_top: "2 powi 1023 \<le> q \<Longrightarrow> expo q = 1023"
  using expo_search_top [of 2044 q] by (simp add: expo_def)

lemma fmul_overflow: "fmul (Finite 5) (Finite (2 ^ 1023)) = PInf"
proof -
  have e: "expo (5 * 2 ^ 1023) = 1023" by (rule expo_top) (simp add: power_int_def)
  have "(5 * 2 ^ 1023 / 2 powi (1023 - 52) :: rat) = of_int (5 * 2 ^ 52)"
    by (simp add: power_int_def)
  then have "round_mag (5 * 2 ^ 1023) = of_int (5 * 2 ^ 52) * 2 powi (1023 - 52)"
    by (simp only: round_mag_def e Let_def round_even_of_int)
  then have "fround (5 * 2 ^ 1023) = PInf"
    by (simp add: fround_def power_int_def)
  then show ?thesis by (simp add: fmul_def)
qed

lemma mul_14: "fmul (Finite (3 / 2)) (Finite (3152519739159347 / 2251799813685248)) = Finite (1182194902184755 / 562949953421312)"
proof -
  have "fround (3 / 2 * (3152519739159347 / 2251799813685248)) = Finite (1182194902184755 / 562949953421312)"
  proof (rule fround_at [where e = 1 and k = 4728779608739020])
    show "round_even (3 / 2 * (3152519739159347 / 2251799813685248) / 2 powi (1 - 52)) = 4728779608739020"
      by (rule round_even_tie) (simp_all add: power_int_def power_divide)
  qed (simp_all add: power_int_def power_divide)
  then show ?thesis by (simp add: fmul_def)
qed

lemma weighted_mean_14:
  "weighted_mean (Finite (3152519739159347 / 2251799813685248)) (Finite 0) (Finite 0)
     = Finite (6755399441055743 / 4503599627370496)"
proof -
  let ?a = "3152519739159347 / 2251799813685248 :: rat"
  let ?p = "1182194902184755 / 562949953421312 :: rat"
  have z5: "fmul (Finite 5) (Finite 0) = Finite 0" by (simp add: fmul_def signed_zero_def)
  have z7: "fmul (Finite 7) (Finite 0) = Finite 0" by (simp add: fmul_def signed_zero_def)
  have fp: "fround ?p = Finite ?p"
  proof (rule fround_at [where e = 1 and k = 4728779608739020])
    show "round_even (?p / 2 powi (1 - 52)) = 4728779608739020"
      by (rule round_even_near) (simp add: power_int_def power_divide)
  qed (simp_all add: power_int_def power_divide)
  have fa: "fround ?a = Finite ?a"
  proof (rule fround_at [where e = 0 and k = 6305039478318694])
    show "round_even (?a / 2 powi (0 - 52)) = 6305039478318694"
      by (rule round_even_near) (simp add: power_int_def power_divide)
  qed (simp_all add: power_int_def power_divide)
  have n: "fadd (Finite ?p) (Finite 0) = Finite ?p" using fp by (simp add: fadd_def)
  have d: "fadd (Finite ?a) (Finite 0) = Finite ?a" using fa by (simp add: fadd_def)
  have "fround (?p / ?a) = Finite (6755399441055743 / 4503599627370496)"
  proof (rule fround_at [where e = 0 and k = 6755399441055743])
    show "round_even (?p / ?a / 2 powi (0 - 52)) = 6755399441055743"
      by (rule round_even_near) (simp add: power_int_def power_divide)
  qed (simp_all add: power_int_def power_divide)
  then have q: "fdiv (Finite ?p) (Finite ?a) = Finite (6755399441055743 / 4503599627370496)"
    by (simp add: fdiv_def)
  show ?thesis by (simp only: weighted_mean_def mul_14 z5 z7 n d q)
qed

lemma wf_towns_example: "wf_df towns_example"
  by (simp add: wf_df_def towns_example_def nrows_def)

lemma wf_rounding_example: "wf_df rounding_example"
  by (simp add: wf_df_def rounding_example_def nrows_def)

lemma weighted_mean_2_0_0: "weighted_mean (Finite 2) (Finite 0) (Finite 0) = Finite (3 / 2)"
proof -
  from weighted_mean_counts [of 2 0 0] obtain r where
    "weighted_mean (Finite (of_nat 2)) (Finite (of_nat 0)) (Finite (of_nat 0)) = Finite r"
    "r = 3 / 2 \<longleftrightarrow> (0::nat) = 0 \<and> (0::nat) = 0"
    by auto
  then show ?thesis by simp
qed

lemma sum_2_0_0: "fadd (fadd (Finite 2) (Finite 0)) (Finite 0) = Finite 2"
proof -
  have "fround 2 = Finite 2" using fround_half_int [of 4] by simp
  then show ?thesis by (simp add: fadd_def)
qed

section \<open>The derived column\<close>

text \<open>
  C1, as amended. For every town row whose three bucket values are whole numbers below
  \<open>2 ^ 48\<close>, not all zero, the derived column \<open>Average family size\<close> holds a finite
  number within one part in \<open>2 ^ 53\<close> of \<open>(1.5*b1 + 5*b2 + 7*b3) / (b1 + b2 + b3)\<close>,
  the formula in exact arithmetic, and holds the value of the formula itself whenever
  that value is a multiple of \<open>1 / 2 ^ 50\<close>, as it is for the buckets (2, 0, 0) and
  (1, 2, 1).
\<close>

theorem count_buckets_average_near_formula:
  assumes "wf_df d"
    and "get_col d bucket1 = Inr (NumCol b1)"
    and "get_col d bucket2 = Inr (NumCol b2)"
    and "get_col d bucket3 = Inr (NumCol b3)"
    and "i < nrows d"
    and "b1 ! i = Finite (of_nat n1)" "b2 ! i = Finite (of_nat n2)" "b3 ! i = Finite (of_nat n3)"
    and "n1 < 2 ^ 48" "n2 < 2 ^ 48" "n3 < 2 ^ 48"
    and "0 < n1 + n2 + n3"
  shows "\<exists>d' avg r. average_family_size d = Inr d'
           \<and> get_col d' family_size = Inr (NumCol avg)
           \<and> avg ! i = Finite r
           \<and> \<bar>r - formula_average (of_nat n1) (of_nat n2) (of_nat n3)\<bar>
               \<le> formula_average (of_nat n1) (of_nat n2) (of_nat n3) / 2 ^ 53
           \<and> ((\<exists>k. formula_average (of_nat n1) (of_nat n2) (of_nat n3) * 2 ^ 50 = of_int k)
                \<longrightarrow> r = formula_average (of_nat n1) (of_nat n2) (of_nat n3))"
proof -
  from derived_column [OF assms(1-4)] assms(5) obtain d' avg where
    a: "average_family_size d = Inr d'" "get_col d' family_size = Inr (NumCol avg)"
      "avg ! i = weighted_mean (b1 ! i) (b2 ! i) (b3 ! i)"
    by blast
  from weighted_mean_counts_formula [OF assms(9-12)] obtain r where
    r: "weighted_mean (Finite (of_nat n1)) (Finite (of_nat n2)) (Finite (of_nat n3)) = Finite r"
      "\<bar>r - formula_average (of_nat n1) (of_nat n2) (of_nat n3)\<bar>
               \<le> formula_average (of_nat n1) (of_nat n2) (of_nat n3) / 2 ^ 53"
      "(\<exists>k. formula_average (of_nat n1) (of_nat n2) (of_nat n3) * 2 ^ 50 = of_int k)
                \<longrightarrow> r = formula_average (of_nat n1) (of_nat n2) (of_nat n3)"
    by blast
  from a(3) r(1) have "avg ! i = Finite r" by (simp only: assms(6-8))
  with a(1,2) r(2,3) show ?thesis by blast
qed

theorem count_buckets_average_near_formula_witness:
  "wf_df towns_example \<and> 2 < nrows towns_example \<and> (1::nat) < 2 ^ 48 \<and> (2::nat) < 2 ^ 48
     \<and> (0::nat) < 1 + 2 + 1
     \<and> formula_average 1 2 1 = 37 / 8
     \<and> (\<exists>d' avg. average_family_size towns_example = Inr d'
           \<and> get_col d' family_size = Inr (NumCol avg) \<and> avg ! 2 = Finite (37 / 8))"
proof -
  have g: "get_col towns_example bucket1 = Inr (NumCol [Finite 2, Finite 0, Finite 1])"
    "get_col towns_example bucket2 = Inr (NumCol [Finite 0, Finite 0, Finite 2])"
    "get_col towns_example bucket3 = Inr (NumCol [Finite 0, Finite 0, Finite 1])"
    by (simp_all add: get_col_def towns_example_def)
  have n: "2 < nrows towns_example" by (simp add: nrows_def towns_example_def)
  have f: "formula_average 1 2 1 = 37 / 8" by (simp add: formula_average_def)
  have k: "formula_average 1 2 1 * 2 ^ 50 = of_int (37 * 2 ^ 47)" by (simp add: f)
  from count_buckets_average_near_formula [OF wf_towns_example g n, of 1 2 1]
  obtain d' avg r where
    "average_family_size towns_example = Inr d'" "get_col d' family_size = Inr (NumCol avg)"
    "avg ! 2 = Finite r"
    "(\<exists>k. formula_average (of_nat 1) (of_nat 2) (of_nat 1) * 2 ^ 50 = of_int k)
        \<longrightarrow> r = formula_average (of_nat 1) (of_nat 2) (of_nat 1)"
    by auto
  moreover from this(4) k have "r = 37 / 8" using f by auto
  ultimately have "\<exists>d' avg. average_family_size towns_example = Inr d'
           \<and> get_col d' family_size = Inr (NumCol avg) \<and> avg ! 2 = Finite (37 / 8)"
    by auto
  with wf_towns_example n f show ?thesis by simp
qed

text \<open>
  C1 as stated fails: the column holds float64 numbers, computed step by step with a
  rounding at each step. For the buckets (1.4, 0, 0), whose sum is not zero, the formula
  is exactly 1.5 and the column holds \<open>1.4999999999999998\<close>.
\<close>

theorem rounded_quotient_is_not_the_formula:
  "get_col rounding_example bucket1 = Inr (NumCol [Finite (3152519739159347 / 2251799813685248)])
     \<and> get_col rounding_example bucket2 = Inr (NumCol [Finite 0])
     \<and> get_col rounding_example bucket3 = Inr (NumCol [Finite 0])
     \<and> \<not> is_zero (fadd (fadd (Finite (3152519739159347 / 2251799813685248)) (Finite 0)) (Finite 0))
     \<and> average_family_size rounding_example =
         Inr (rounding_example @ [(family_size, NumCol [Finite (6755399441055743 / 4503599627370496)])])
     \<and> formula_average (3152519739159347 / 2251799813685248) 0 0 = 3 / 2
     \<and> Finite (6755399441055743 / 4503599627370496)
         \<noteq> Finite (formula_average (3152519739159347 / 2251799813685248) 0 0)"
proof -
  let ?a = "3152519739159347 / 2251799813685248 :: rat"
  have g: "map_of rounding_example bucket1 = Some (NumCol [Finite ?a])"
    "map_of rounding_example bucket2 = Some (NumCol [Finite 0])"
    "map_of rounding_example bucket3 = Some (NumCol [Finite 0])"
    by (simp_all add: rounding_example_def)
  have fa: "fround ?a = Finite ?a"
  proof (rule fround_at [where e = 0 and k = 6305039478318694])
    show "round_even (?a / 2 powi (0 - 52)) = 6305039478318694"
      by (rule round_even_near) (simp add: power_int_def power_divide)
  qed (simp_all add: power_int_def power_divide)
  have s: "fadd (fadd (Finite ?a) (Finite 0)) (Finite 0) = Finite ?a"
    using fa by (simp add: fadd_def)
  have "average_family_size rounding_example =
     Inr (set_col family_size
            (NumCol (map (\<lambda>i. weighted_mean ([Finite ?a] ! i) ([Finite 0] ! i) ([Finite 0] ! i)) [0..<length [Finite ?a]]))
            rounding_example)"
    using g by (intro average_family_size_numeric) simp_all
  also have "\<dots> = Inr (rounding_example @ [(family_size, NumCol [Finite (6755399441055743 / 4503599627370496)])])"
    by (simp add: weighted_mean_14) (simp add: rounding_example_def)
  finally have avg: "average_family_size rounding_example =
      Inr (rounding_example @ [(family_size, NumCol [Finite (6755399441055743 / 4503599627370496)])])" .
  have f: "formula_average ?a 0 0 = 3 / 2" by (simp add: formula_average_def)
  show ?thesis
    using avg by (simp add: get_col_def g s f)
qed

text \<open>
  C3. For every town row whose three bucket values are all zero (of either sign), the
  computation of the derived column does not raise: it returns the table with the new
  column, and that column holds NaN for the town.
\<close>

theorem zero_buckets_give_nan:
  assumes "wf_df d"
    and "get_col d bucket1 = Inr (NumCol b1)"
    and "get_col d bucket2 = Inr (NumCol b2)"
    and "get_col d bucket3 = Inr (NumCol b3)"
    and "i < nrows d"
    and "is_zero (b1 ! i)" "is_zero (b2 ! i)" "is_zero (b3 ! i)"
  shows "\<exists>d' avg. average_family_size d = Inr d'
           \<and> get_col d' family_size = Inr (NumCol avg) \<and> avg ! i = NaN"
  using derived_column [OF assms(1-4)] assms(5) weighted_mean_zero [OF assms(6-8)] by auto

theorem zero_buckets_give_nan_witness:
  "wf_df towns_example \<and> 1 < nrows towns_example
     \<and> is_zero (Finite 0)
     \<and> (\<exists>d' avg. average_family_size towns_example = Inr d'
           \<and> get_col d' family_size = Inr (NumCol avg) \<and> avg ! 1 = NaN)"
proof -
  have g: "get_col towns_example bucket1 = Inr (NumCol [Finite 2, Finite 0, Finite 1])"
    "get_col towns_example bucket2 = Inr (NumCol [Finite 0, Finite 0, Finite 2])"
    "get_col towns_example bucket3 = Inr (NumCol [Finite 0, Finite 0, Finite 1])"
    by (simp_all add: get_col_def towns_example_def)
  have n: "1 < nrows towns_example" by (simp add: nrows_def towns_example_def)
  from zero_buckets_give_nan [OF wf_towns_example g n] wf_towns_example n
  show ?thesis by simp
qed

text \<open>
  C4, as amended. For every town whose three bucket values are whole numbers below
  \<open>2 ^ 48\<close>, not all zero, every step of the computation is exact up to the final
  division, and the derived average lies between 1.5 and 7. It is 1.5 exactly when the
  first bucket holds all the mass and 7 exactly when the last one does; in particular
  the buckets (2, 0, 0) give exactly 1.5.
\<close>

theorem count_buckets_average_in_range:
  assumes "wf_df d"
    and "get_col d bucket1 = Inr (NumCol b1)"
    and "get_col d bucket2 = Inr (NumCol b2)"
    and "get_col d bucket3 = Inr (NumCol b3)"
    and "i < nrows d"
    and "b1 ! i = Finite (of_nat n1)" "b2 ! i = Finite (of_nat n2)" "b3 ! i = Finite (of_nat n3)"
    and "n1 < 2 ^ 48" "n2 < 2 ^ 48" "n3 < 2 ^ 48"
    and "0 < n1 + n2 + n3"
  shows "\<exists>d' avg r. average_family_size d = Inr d'
           \<and> get_col d' family_size = Inr (NumCol avg)
           \<and> avg ! i = Finite r \<and> 3 / 2 \<le> r \<and> r \<le> 7
           \<and> (r = 3 / 2 \<longleftrightarrow> n2 = 0 \<and> n3 = 0)
           \<and> (r = 7 \<longleftrightarrow> n1 = 0 \<and> n2 = 0)"
proof -
  from derived_column [OF assms(1-4)] assms(5) obtain d' avg where
    a: "average_family_size d = Inr d'" "get_col d' family_size = Inr (NumCol avg)"
      "avg ! i = weighted_mean (b1 ! i) (b2 ! i) (b3 ! i)"
    by blast
  from weighted_mean_counts [OF assms(9-12)] obtain r where
    r: "weighted_mean (Finite (of_nat n1)) (Finite (of_nat n2)) (Finite (of_nat n3)) = Finite r"
      "3 / 2 \<le> r" "r \<le> 7" "r = 3 / 2 \<longleftrightarrow> n2 = 0 \<and> n3 = 0" "r = 7 \<longleftrightarrow> n1 = 0 \<and> n2 = 0"
    by blast
  from a(3) r(1) have "avg ! i = Finite r" by (simp only: assms(6-8))
  with a(1,2) r(2-5) show ?thesis by blast
qed

theorem count_buckets_average_in_range_witness:
  "wf_df towns_example \<and> 0 < nrows towns_example \<and> (2::nat) < 2 ^ 48 \<and> (0::nat) < 2 + 0 + 0
     \<and> (\<exists>d' avg. average_family_size towns_example = Inr d'
           \<and> get_col d' family_size = Inr (NumCol avg) \<and> avg ! 0 = Finite (3 / 2))"
proof -
  have g: "get_col towns_example bucket1 = Inr (NumCol [Finite 2, Finite 0, Finite 1])"
    "get_col towns_example bucket2 = Inr (NumCol [Finite 0, Finite 0, Finite 2])"
    "get_col towns_example bucket3 = Inr (NumCol [Finite 0, Finite 0, Finite 1])"
    by (simp_all add: get_col_def towns_example_def)
  have n: "0 < nrows towns_example" by (simp add: nrows_def towns_example_def)
  from count_buckets_average_in_range [OF wf_towns_example g n, of 2 0 0]
  obtain d' avg r where
    "average_family_size towns_example = Inr d'" "get_col d' family_size = Inr (NumCol avg)"
    "avg ! 0 = Finite r" "r = 3 / 2 \<longleftrightarrow> (0::nat) = 0 \<and> (0::nat) = 0"
    by auto
  then have "\<exists>d' avg. average_family_size towns_example = Inr d'
           \<and> get_col d' family_size = Inr (NumCol avg) \<and> avg ! 0 = Finite (3 / 2)"
    by auto
  with wf_towns_example n show ?thesis by simp
qed

text \<open>
  C4 as stated fails: bucket values need not be whole numbers. For the non-negative
  buckets (1.4, 0, 0), whose sum is not zero, the product \<open>1.5 * 1.4\<close> is rounded down
  and the quotient comes out as \<open>1.4999999999999998\<close>, below 1.5, although one bucket
  holds all the mass.
\<close>

theorem rounding_below_lower_bound:
  "wf_df rounding_example
     \<and> get_col rounding_example bucket1 = Inr (NumCol [Finite (3152519739159347 / 2251799813685248)])
     \<and> get_col rounding_example bucket2 = Inr (NumCol [Finite 0])
     \<and> get_col rounding_example bucket3 = Inr (NumCol [Finite 0])
     \<and> fle (Finite 0) (Finite (3152519739159347 / 2251799813685248))
     \<and> fle (Finite 0) (Finite 0)
     \<and> \<not> is_zero (fadd (fadd (Finite (3152519739159347 / 2251799813685248)) (Finite 0)) (Finite 0))
     \<and> average_family_size rounding_example =
         Inr (rounding_example @ [(family_size, NumCol [Finite (6755399441055743 / 4503599627370496)])])
     \<and> \<not> fle (Finite (3 / 2)) (Finite (6755399441055743 / 4503599627370496))"
proof -
  let ?a = "3152519739159347 / 2251799813685248 :: rat"
  have g: "map_of rounding_example bucket1 = Some (NumCol [Finite ?a])"
    "map_of rounding_example bucket2 = Some (NumCol [Finite 0])"
    "map_of rounding_example bucket3 = Some (NumCol [Finite 0])"
    by (simp_all add: rounding_example_def)
  have fa: "fround ?a = Finite ?a"
  proof (rule fround_at [where e = 0 and k = 6305039478318694])
    show "round_even (?a / 2 powi (0 - 52)) = 6305039478318694"
      by (rule round_even_near) (simp add: power_int_def power_divide)
  qed (simp_all add: power_int_def power_divide)
  have s: "fadd (fadd (Finite ?a) (Finite 0)) (Finite 0) = Finite ?a"
    using fa by (simp add: fadd_def)
  have "average_family_size rounding_example =
     Inr (set_col family_size
            (NumCol (map (\<lambda>i. weighted_mean ([Finite ?a] ! i) ([Finite 0] ! i) ([Finite 0] ! i)) [0..<length [Finite ?a]]))
            rounding_example)"
    using g by (intro average_family_size_numeric) simp_all
  also have "\<dots> = Inr (rounding_example @ [(family_size, NumCol [Finite (6755399441055743 / 4503599627370496)])])"
    by (simp add: weighted_mean_14) (simp add: rounding_example_def)
  finally have avg: "average_family_size rounding_example =
      Inr (rounding_example @ [(family_size, NumCol [Finite (6755399441055743 / 4503599627370496)])])" .
  show ?thesis
    using wf_rounding_example avg by (simp add: get_col_def g s)
qed


section \<open>Gender by town: the truncation\<close>

lemma cells_col_take: "cells (col_take n c) = take n (cells c)"
  by (cases c) (simp_all add: take_map)

lemma get_col_Inr: "get_col d name = Inr c \<Longrightarrow> map_of d name = Some c"
  by (auto simp: get_col_def split: option.splits)

text \<open>The gender chart melts the two percentage columns of the truncated table: two
  rows per town kept.\<close>

lemma truncation_melt_rows:
  assumes "wf_df d" "get_col d ''Town'' = Inr town" "get_col d women = Inr w" "get_col d men = Inr m"
  shows "\<exists>df_plot rows. truncation_plot n d = Inr df_plot \<and> melt ''Town'' df_plot = Inr rows
           \<and> length rows = 2 * min n (nrows d)"
proof -
  have l: "length (cells town) = nrows d" "length (cells w) = nrows d" "length (cells m) = nrows d"
    using wf_col_length [OF assms(1) get_col_Inr [OF assms(2)]]
      wf_col_length [OF assms(1) get_col_Inr [OF assms(3)]]
      wf_col_length [OF assms(1) get_col_Inr [OF assms(4)]] by simp_all
  show ?thesis
    using assms(2-4) l
    by (simp add: truncation_plot_def melt_def cells_col_take min.commute)
qed

text \<open>
  C5. For every loaded table with the three columns and every number \<open>n\<close> of towns
  asked for, in particular every slider value 10, 20, ..., 70, the truncation selects
  exactly the first \<open>min n (nrows d)\<close> rows of the columns Town, Percentage of Women and
  Percentage of Men: with 10 it is ten towns, or all of them when the table has fewer.
\<close>

theorem truncation_first_rows:
  assumes "wf_df d"
    and "get_col d ''Town'' = Inr town"
    and "get_col d women = Inr percentage_women"
    and "get_col d men = Inr percentage_men"
  shows "\<exists>t w m. truncation_plot n d = Inr [(''Town'', t), (women, w), (men, m)]
           \<and> nrows [(''Town'', t), (women, w), (men, m)] = min n (nrows d)
           \<and> cells t = take (min n (nrows d)) (cells town)
           \<and> cells w = take (min n (nrows d)) (cells percentage_women)
           \<and> cells m = take (min n (nrows d)) (cells percentage_men)"
proof -
  have l: "length (cells town) = nrows d" "length (cells percentage_women) = nrows d"
    "length (cells percentage_men) = nrows d"
    using wf_col_length [OF assms(1) get_col_Inr [OF assms(2)]]
      wf_col_length [OF assms(1) get_col_Inr [OF assms(3)]]
      wf_col_length [OF assms(1) get_col_Inr [OF assms(4)]] by simp_all
  have "truncation_plot n d =
      Inr [(''Town'', col_take n town), (women, col_take n percentage_women), (men, col_take n percentage_men)]"
    using assms(2-4) by (simp add: truncation_plot_def)
  moreover have "nrows [(''Town'', col_take n town), (women, col_take n percentage_women), (men, col_take n percentage_men)]
      = min n (nrows d)"
    using l by (simp add: nrows_def cells_col_take min.commute)
  moreover have "cells (col_take n town) = take (min n (nrows d)) (cells town)"
    "cells (col_take n percentage_women) = take (min n (nrows d)) (cells percentage_women)"
    "cells (col_take n percentage_men) = take (min n (nrows d)) (cells percentage_men)"
    using l by (simp_all add: cells_col_take min_def)
  ultimately show ?thesis by blast
qed

theorem truncation_first_rows_witness:
  "wf_df towns_example
     \<and> (\<exists>t w m. truncation_plot 10 towns_example = Inr [(''Town'', t), (women, w), (men, m)]
           \<and> nrows [(''Town'', t), (women, w), (men, m)] = 3
           \<and> cells t = [S ''Aabadiyeh'', S ''Aachqout'', S ''Fourzol'']
           \<and> cells w = [N (Finite 50), N (Finite 51), N (Finite 49)]
           \<and> cells m = [N (Finite 50), N (Finite 49), N (Finite 51)])"
proof -
  have g: "get_col towns_example ''Town'' = Inr (StrCol [''Aabadiyeh'', ''Aachqout'', ''Fourzol''])"
    "get_col towns_example women = Inr (NumCol [Finite 50, Finite 51, Finite 49])"
    "get_col towns_example men = Inr (NumCol [Finite 50, Finite 49, Finite 51])"
    by (simp_all add: get_col_def towns_example_def)
  have n: "nrows towns_example = 3" by (simp add: nrows_def towns_example_def)
  from truncation_first_rows [OF wf_towns_example g, of 10] wf_towns_example
  show ?thesis by (simp add: n)
qed

section \<open>Melting to long format\<close>

lemma length_concat_const:
  "(\<forall>xs \<in> set xss. length xs = m) \<Longrightarrow> length (concat xss) = length xss * m"
  by (induction xss) simp_all

lemma nth_concat_const:
  "(\<forall>xs \<in> set xss. length xs = m) \<Longrightarrow> j < length xss \<Longrightarrow> i < m
     \<Longrightarrow> concat xss ! (j * m + i) = xss ! j ! i"
proof (induction xss arbitrary: j)
  case Nil
  then show ?case by simp
next
  case (Cons xs xss)
  show ?case
  proof (cases j)
    case 0
    with Cons.prems show ?thesis by (simp add: nth_append)
  next
    case (Suc k)
    with Cons.prems have "concat xss ! (k * m + i) = xss ! k ! i"
      by (intro Cons.IH) simp_all
    moreover have "length xs = m" using Cons.prems(1) by simp
    ultimately show ?thesis using Suc by (simp add: nth_append)
  qed
qed

lemma select_cols_present:
  assumes "set names \<subseteq> fst ` set d"
  shows "select_cols d names = Inr (map (\<lambda>n. (n, the (map_of d n))) names)"
proof -
  have "filter (\<lambda>n. map_of d n = None) names = []"
    using assms by (auto simp: filter_empty_conv map_of_eq_None_iff)
  then show ?thesis by (simp add: select_cols_def)
qed

lemma category_flow_rows:
  assumes "get_col d ''Town'' = Inr tc" "''Town'' \<notin> set cols" "set cols \<subseteq> fst ` set d"
  shows "category_flow cols d =
     Inr (concat (map (\<lambda>n. map (\<lambda>(t, v). (t, n, v)) (zip (cells tc) (cells (the (map_of d n))))) cols))"
proof -
  have tc: "map_of d ''Town'' = Some tc" using assms(1) by (rule get_col_Inr)
  then have "''Town'' \<in> fst ` set d" by (metis domI dom_map_of_conv_image_fst)
  with assms(3) have "set (''Town'' # cols) \<subseteq> fst ` set d" by simp
  then have sel: "select_cols d (''Town'' # cols) = Inr (map (\<lambda>n. (n, the (map_of d n))) (''Town'' # cols))"
    by (rule select_cols_present)
  have flt: "filter (\<lambda>(name, c). name \<noteq> ''Town'') (map (\<lambda>n. (n, the (map_of d n))) cols)
      = map (\<lambda>n. (n, the (map_of d n))) cols"
    using assms(2) by (induction cols) auto
  have once: "filter (\<lambda>(name, c). name = ''Town'') (map (\<lambda>n. (n, the (map_of d n))) cols) = []"
    using assms(2) by (induction cols) auto
  show ?thesis
    unfolding category_flow_def sel
    by (simp add: melt_def tc flt once comp_def del: map_map) (simp add: comp_def)
qed

text \<open>
  C6. For every table of \<open>m\<close> towns and every selection of \<open>k\<close> of its columns
  (other than Town), the melt yields exactly \<open>k * m\<close> rows; row \<open>j * m + i\<close> is the
  triple of town \<open>i\<close>, the name of the \<open>j\<close>-th selected column and the cell of that
  column for town \<open>i\<close>. An empty selection yields the empty table, not an error.
\<close>

theorem melt_selected_columns:
  assumes "wf_df d"
    and "get_col d ''Town'' = Inr tc"
    and "''Town'' \<notin> set cols"
    and "set cols \<subseteq> fst ` set d"
  shows "\<exists>rows. category_flow cols d = Inr rows
           \<and> length rows = length cols * nrows d
           \<and> (\<forall>j < length cols. \<forall>i < nrows d.
                \<exists>c. get_col d (cols ! j) = Inr c
                   \<and> rows ! (j * nrows d + i) = (cells tc ! i, cols ! j, cells c ! i))
           \<and> (cols = [] \<longrightarrow> rows = [])"
proof -
  let ?block = "\<lambda>n. map (\<lambda>(t, v). (t, n, v)) (zip (cells tc) (cells (the (map_of d n))))"
  let ?rows = "concat (map ?block cols)"
  have flow: "category_flow cols d = Inr ?rows"
    using assms(2-4) by (rule category_flow_rows)
  have ltc: "length (cells tc) = nrows d"
    using wf_col_length [OF assms(1) get_col_Inr [OF assms(2)]] .
  have col: "\<exists>c. map_of d n = Some c \<and> length (cells c) = nrows d" if "n \<in> set cols" for n
  proof -
    from that assms(4) have "n \<in> fst ` set d" by blast
    then have "n \<in> dom (map_of d)" by (simp add: dom_map_of_conv_image_fst)
    then obtain c where c: "map_of d n = Some c" by blast
    with wf_col_length [OF assms(1) c] show ?thesis by simp
  qed
  have col': "length (cells (the (map_of d n))) = nrows d" if "n \<in> set cols" for n
    using col [OF that] by auto
  have blk: "\<forall>xs \<in> set (map ?block cols). length xs = nrows d"
    using col' ltc by auto
  have len: "length ?rows = length cols * nrows d"
    using length_concat_const [OF blk] by simp
  have cell: "\<exists>c. get_col d (cols ! j) = Inr c
                   \<and> ?rows ! (j * nrows d + i) = (cells tc ! i, cols ! j, cells c ! i)"
    if "j < length cols" "i < nrows d" for j i
  proof -
    from that(1) have "cols ! j \<in> set cols" by simp
    from col [OF this] obtain c where c: "map_of d (cols ! j) = Some c" "length (cells c) = nrows d"
      by blast
    have "?rows ! (j * nrows d + i) = map ?block cols ! j ! i"
      using that by (intro nth_concat_const [OF blk]) simp_all
    also have "\<dots> = (cells tc ! i, cols ! j, cells c ! i)"
      using that c ltc by simp
    finally show ?thesis using c(1) by (simp add: get_col_def)
  qed
  from flow len cell show ?thesis by (intro exI [of _ ?rows]) simp
qed

theorem melt_selected_columns_witness:
  "wf_df towns_example \<and> ''Town'' \<notin> set [women, men]
     \<and> set [women, men] \<subseteq> fst ` set towns_example
     \<and> (\<exists>rows. category_flow [women, men] towns_example = Inr rows
           \<and> length rows = 2 * 3
           \<and> rows ! (1 * 3 + 2) = (S ''Fourzol'', men, N (Finite 51)))"
proof -
  have g: "get_col towns_example ''Town'' = Inr (StrCol [''Aabadiyeh'', ''Aachqout'', ''Fourzol''])"
    by (simp add: get_col_def towns_example_def)
  have gm: "get_col towns_example men = Inr (NumCol [Finite 50, Finite 49, Finite 51])"
    by (simp add: get_col_def towns_example_def)
  have n: "nrows towns_example = 3" by (simp add: nrows_def towns_example_def)
  have t: "''Town'' \<notin> set [women, men]" by simp
  have s: "set [women, men] \<subseteq> fst ` set towns_example" by (simp add: towns_example_def)
  from melt_selected_columns [OF wf_towns_example g t s] obtain rows where
    r: "category_flow [women, men] towns_example = Inr rows"
      "length rows = length [women, men] * nrows towns_example"
      "\<forall>j < length [women, men]. \<forall>i < nrows towns_example.
          \<exists>c. get_col towns_example ([women, men] ! j) = Inr c
             \<and> rows ! (j * nrows towns_example + i)
                 = (cells (StrCol [''Aabadiyeh'', ''Aachqout'', ''Fourzol'']) ! i, [women, men] ! j, cells c ! i)"
    by blast
  have "1 < length [women, men]" "2 < nrows towns_example" by (simp_all add: n)
  from r(3) [rule_format, OF this]
  have "\<exists>c. get_col towns_example ([women, men] ! 1) = Inr c
             \<and> rows ! (1 * nrows towns_example + 2)
                 = (cells (StrCol [''Aabadiyeh'', ''Aachqout'', ''Fourzol'']) ! 2, [women, men] ! 1, cells c ! 2)" .
  then have "rows ! (1 * 3 + 2) = (S ''Fourzol'', men, N (Finite 51))"
    by (simp add: n gm)
  with r(1,2) wf_towns_example t s show ?thesis by (simp add: n)
qed

section \<open>Annotated towns\<close>

lemma keep_map: "keep flags (map f xs) = map f (keep flags xs)"
proof -
  have "zip (map f xs) flags = map (\<lambda>(x, b). (f x, b)) (zip xs flags)"
    by (simp add: zip_map1)
  then show ?thesis
    by (simp add: keep_def filter_map comp_def case_prod_unfold)
qed

lemma cells_col_keep: "cells (col_keep flags c) = keep flags (cells c)"
  by (cases c) (simp_all add: keep_map)

lemma keep_Nil [simp]: "keep [] xs = []" "keep flags [] = []"
  by (simp_all add: keep_def)

lemma keep_Cons [simp]: "keep (b # flags) (x # xs) = (if b then x # keep flags xs else keep flags xs)"
  by (simp add: keep_def)

lemma keep_all_false: "True \<notin> set flags \<Longrightarrow> keep flags xs = []"
proof (induction flags arbitrary: xs)
  case Nil
  then show ?case by simp
next
  case (Cons b flags)
  from Cons.prems have "True \<notin> set flags" "\<not> b" by auto
  with Cons.IH show ?case by (cases xs) simp_all
qed

lemma keep_absent: "S town \<notin> set (cells tc) \<Longrightarrow> keep (eq_mask tc town) xs = []"
  by (rule keep_all_false) (auto simp: eq_mask_def)

lemma keep_unique:
  "distinct ts \<Longrightarrow> i < length ts \<Longrightarrow> length xs = length ts
     \<Longrightarrow> keep (eq_mask (StrCol ts) (ts ! i)) xs = [xs ! i]"
proof (induction ts arbitrary: i xs)
  case Nil
  then show ?case by simp
next
  case (Cons t ts)
  from Cons.prems(3) obtain x xs' where xs: "xs = x # xs'" "length xs' = length ts"
    by (cases xs) auto
  show ?case
  proof (cases i)
    case 0
    from Cons.prems(1) have "S t \<notin> set (cells (StrCol ts))" by auto
    then have "keep (eq_mask (StrCol ts) t) xs' = []" by (rule keep_absent)
    with 0 xs show ?thesis by (simp add: eq_mask_def)
  next
    case (Suc k)
    with Cons.prems have k: "k < length ts" "distinct ts" "ts ! k \<noteq> t" by auto
    from Cons.IH [OF k(2) k(1) xs(2)] have "keep (eq_mask (StrCol ts) (ts ! k)) xs' = [xs' ! k]" .
    with Suc xs k(3) show ?thesis by (simp add: eq_mask_def)
  qed
qed

lemma town_trace_plot:
  "town_trace [(''Town'', tc), (family_size, xc), (elderly, yc)] town =
     Inr (keep (eq_mask tc town) (cells xc), keep (eq_mask tc town) (cells yc),
          keep (eq_mask tc town) (cells tc))"
  by (simp add: town_trace_def get_col_def filter_rows_def Let_def cells_col_keep)

lemma annotate_plot:
  "annotate [(''Town'', tc), (family_size, xc), (elderly, yc)] towns fig =
     Inr (fst fig, snd fig @ map (\<lambda>t. (keep (eq_mask tc t) (cells xc), keep (eq_mask tc t) (cells yc),
                                        keep (eq_mask tc t) (cells tc))) towns)"
proof (induction towns arbitrary: fig)
  case Nil
  then show ?case by simp
next
  case (Cons t towns)
  show ?case by (simp add: town_trace_plot Cons.IH add_scatter_def)
qed

lemma annotated_scatter_traces:
  assumes "get_col d ''Town'' = Inr tc" "get_col d family_size = Inr xc" "get_col d elderly = Inr yc"
  shows "annotated_scatter towns d =
     Inr ((cells xc, cells yc, cells tc),
          map (\<lambda>t. (keep (eq_mask tc t) (cells xc), keep (eq_mask tc t) (cells yc),
                     keep (eq_mask tc t) (cells tc))) towns)"
proof -
  have m: "map_of d ''Town'' = Some tc" "map_of d family_size = Some xc" "map_of d elderly = Some yc"
    using assms by (simp_all add: get_col_Inr)
  have "select_cols d [''Town'', family_size, elderly] = Inr [(''Town'', tc), (family_size, xc), (elderly, yc)]"
    by (simp add: select_cols_def m)
  then show ?thesis
    by (simp add: annotated_scatter_def px_scatter_def px_col_def annotate_plot)
qed

lemma wf_derived_example: "wf_df derived_example"
  by (simp add: wf_df_def derived_example_def towns_example_def nrows_def)

text \<open>
  C7. When the town names of the table are unique and the towns to annotate are chosen
  among them, the figure gets one overlay trace per selected town, in the order of the
  selection, and that trace is exactly one marker: the town's point, labelled with the
  town. The labels of all overlay markers, listed, are the selected towns: for a selection
  without repetition every selected town is highlighted exactly once, none is missing and
  none is duplicated.
\<close>

theorem selected_towns_highlighted_once:
  assumes "wf_df d"
    and "get_col d ''Town'' = Inr (StrCol ts)"
    and "get_col d family_size = Inr xc"
    and "get_col d elderly = Inr yc"
    and "distinct ts"
    and "set towns \<subseteq> set ts"
  shows "\<exists>overlays. annotated_scatter towns d = Inr ((cells xc, cells yc, map S ts), overlays)
           \<and> length overlays = length towns
           \<and> (\<forall>j < length towns. \<exists>i < nrows d. ts ! i = towns ! j
                \<and> overlays ! j = ([cells xc ! i], [cells yc ! i], [S (towns ! j)]))
           \<and> concat (map (\<lambda>(x, y, label). label) overlays) = map S towns"
proof -
  let ?tr = "\<lambda>t. (keep (eq_mask (StrCol ts) t) (cells xc), keep (eq_mask (StrCol ts) t) (cells yc),
                   keep (eq_mask (StrCol ts) t) (cells (StrCol ts)))"
  have l: "length ts = nrows d" "length (cells xc) = nrows d" "length (cells yc) = nrows d"
    using wf_col_length [OF assms(1) get_col_Inr [OF assms(2)]]
      wf_col_length [OF assms(1) get_col_Inr [OF assms(3)]]
      wf_col_length [OF assms(1) get_col_Inr [OF assms(4)]] by simp_all
  have one: "\<exists>i < nrows d. ts ! i = t \<and> ?tr t = ([cells xc ! i], [cells yc ! i], [S t])"
    if "t \<in> set ts" for t
  proof -
    from that obtain i where i: "i < length ts" "ts ! i = t" by (auto simp: in_set_conv_nth)
    have "keep (eq_mask (StrCol ts) (ts ! i)) (cells xc) = [cells xc ! i]"
      "keep (eq_mask (StrCol ts) (ts ! i)) (cells yc) = [cells yc ! i]"
      "keep (eq_mask (StrCol ts) (ts ! i)) (cells (StrCol ts)) = [cells (StrCol ts) ! i]"
      using assms(5) i(1) l by (simp_all add: keep_unique)
    with i l show ?thesis by auto
  qed
  have sc: "annotated_scatter towns d = Inr ((cells xc, cells yc, map S ts), map ?tr towns)"
    using annotated_scatter_traces [OF assms(2-4), of towns] by simp
  have each: "\<forall>j < length towns. \<exists>i < nrows d. ts ! i = towns ! j
                \<and> map ?tr towns ! j = ([cells xc ! i], [cells yc ! i], [S (towns ! j)])"
  proof (intro allI impI)
    fix j assume j: "j < length towns"
    with assms(6) have "towns ! j \<in> set ts" by auto
    from one [OF this] j show "\<exists>i < nrows d. ts ! i = towns ! j
                \<and> map ?tr towns ! j = ([cells xc ! i], [cells yc ! i], [S (towns ! j)])"
      by simp
  qed
  have labels: "concat (map (\<lambda>(x, y, label). label) (map ?tr towns)) = map S towns"
    using assms(6)
  proof (induction towns)
    case Nil
    then show ?case by simp
  next
    case (Cons t towns)
    then have "t \<in> set ts" by simp
    from one [OF this] have "keep (eq_mask (StrCol ts) t) (cells (StrCol ts)) = [S t]" by auto
    with Cons show ?case by simp
  qed
  from sc each labels show ?thesis by (intro exI [of _ "map ?tr towns"]) simp
qed

theorem selected_towns_highlighted_once_witness:
  "wf_df derived_example \<and> distinct [''Aabadiyeh'', ''Aachqout'', ''Fourzol'']
     \<and> set [''Fourzol'', ''Aabadiyeh''] \<subseteq> set [''Aabadiyeh'', ''Aachqout'', ''Fourzol'']
     \<and> (\<exists>overlays. annotated_scatter [''Fourzol'', ''Aabadiyeh''] derived_example
             = Inr (([N (Finite (3 / 2)), N NaN, N (Finite (37 / 8))],
                     [N (Finite 10), N (Finite 12), N (Finite 9)],
                     [S ''Aabadiyeh'', S ''Aachqout'', S ''Fourzol'']), overlays)
           \<and> length overlays = 2
           \<and> concat (map (\<lambda>(x, y, label). label) overlays) = [S ''Fourzol'', S ''Aabadiyeh''])"
proof -
  have g: "get_col derived_example ''Town'' = Inr (StrCol [''Aabadiyeh'', ''Aachqout'', ''Fourzol''])"
    "get_col derived_example family_size = Inr (NumCol [Finite (3 / 2), NaN, Finite (37 / 8)])"
    "get_col derived_example elderly = Inr (NumCol [Finite 10, Finite 12, Finite 9])"
    by (simp_all add: get_col_def derived_example_def towns_example_def)
  have d: "distinct [''Aabadiyeh'', ''Aachqout'', ''Fourzol'']" by simp
  have s: "set [''Fourzol'', ''Aabadiyeh''] \<subseteq> set [''Aabadiyeh'', ''Aachqout'', ''Fourzol'']" by simp
  from selected_towns_highlighted_once [OF wf_derived_example g d s] obtain overlays where
    "annotated_scatter [''Fourzol'', ''Aabadiyeh''] derived_example
       = Inr ((cells (NumCol [Finite (3 / 2), NaN, Finite (37 / 8)]),
               cells (NumCol [Finite 10, Finite 12, Finite 9]),
               map S [''Aabadiyeh'', ''Aachqout'', ''Fourzol'']), overlays)"
    "length overlays = length [''Fourzol'', ''Aabadiyeh'']"
    "concat (map (\<lambda>(x, y, label). label) overlays) = map S [''Fourzol'', ''Aabadiyeh'']"
    by blast
  then have "\<exists>overlays. annotated_scatter [''Fourzol'', ''Aabadiyeh''] derived_example
             = Inr (([N (Finite (3 / 2)), N NaN, N (Finite (37 / 8))],
                     [N (Finite 10), N (Finite 12), N (Finite 9)],
                     [S ''Aabadiyeh'', S ''Aachqout'', S ''Fourzol'']), overlays)
           \<and> length overlays = 2
           \<and> concat (map (\<lambda>(x, y, label). label) overlays) = [S ''Fourzol'', S ''Aabadiyeh'']"
    by (intro exI [of _ overlays]) simp
  with wf_derived_example d s show ?thesis by blast
qed

text \<open>
  C10. For a town name that is not in the Town column, the loop filters to no rows and
  adds an overlay trace with no point and no label; nothing is raised, whatever the other
  selected towns are, and the base trace of the figure is the full table's cloud.
\<close>

theorem absent_town_adds_empty_trace:
  assumes "get_col d ''Town'' = Inr tc"
    and "get_col d family_size = Inr xc"
    and "get_col d elderly = Inr yc"
    and "S town \<notin> set (cells tc)"
  shows "\<exists>overlays. annotated_scatter towns d = Inr ((cells xc, cells yc, cells tc), overlays)
           \<and> length overlays = length towns
           \<and> (\<forall>j < length towns. towns ! j = town \<longrightarrow> overlays ! j = ([], [], []))"
  using annotated_scatter_traces [OF assms(1-3), of towns]
  by (simp add: keep_absent [OF assms(4)])

theorem absent_town_adds_empty_trace_witness:
  "S ''Beirut'' \<notin> set (cells (StrCol [''Aabadiyeh'', ''Aachqout'', ''Fourzol'']))
     \<and> annotated_scatter [''Beirut''] derived_example
         = Inr (([N (Finite (3 / 2)), N NaN, N (Finite (37 / 8))],
                 [N (Finite 10), N (Finite 12), N (Finite 9)],
                 [S ''Aabadiyeh'', S ''Aachqout'', S ''Fourzol'']), [([], [], [])])"
proof -
  have g: "get_col derived_example ''Town'' = Inr (StrCol [''Aabadiyeh'', ''Aachqout'', ''Fourzol''])"
    "get_col derived_example family_size = Inr (NumCol [Finite (3 / 2), NaN, Finite (37 / 8)])"
    "get_col derived_example elderly = Inr (NumCol [Finite 10, Finite 12, Finite 9])"
    by (simp_all add: get_col_def derived_example_def towns_example_def)
  have a: "S ''Beirut'' \<notin> set (cells (StrCol [''Aabadiyeh'', ''Aachqout'', ''Fourzol'']))" by simp
  from absent_town_adds_empty_trace [OF g a, of "[''Beirut'']"] obtain overlays where
    o: "annotated_scatter [''Beirut''] derived_example
          = Inr ((cells (NumCol [Finite (3 / 2), NaN, Finite (37 / 8)]),
                  cells (NumCol [Finite 10, Finite 12, Finite 9]),
                  cells (StrCol [''Aabadiyeh'', ''Aachqout'', ''Fourzol''])), overlays)"
      "length overlays = length [''Beirut'']"
      "\<forall>j < length [''Beirut'']. [''Beirut''] ! j = ''Beirut'' \<longrightarrow> overlays ! j = ([], [], [])"
    by blast
  from o(2) obtain tr where "overlays = [tr]" by (cases overlays) auto
  with o(3) have "overlays = [([], [], [])]" by simp
  with o(1) a show ?thesis by simp
qed

section \<open>The pie chart\<close>

text \<open>
  C8. For every town of the sample that the form can select, submitting yields a pie of
  exactly two slices, Women and Men, whose values are the town's own cells of the two
  percentage columns, unchanged (so their sum is the sum of the raw values); for Town B
  the slices are 60 and 40.
\<close>

theorem pie_slices_raw:
  assumes "submit_button u"
    and "get_col sample_df ''Town'' = Inr (StrCol ts)"
    and "get_col sample_df women = Inr (NumCol ws)"
    and "get_col sample_df men = Inr (NumCol ms)"
    and "i < nrows sample_df"
    and "selected_town u = ts ! i"
  shows "section_pie u st =
     Inr \<lparr>df = sample_df,
          charts = charts st @ [Pie (S (ts ! i)) [(''Women'', N (ws ! i)), (''Men'', N (ms ! i))]]\<rparr>"
proof -
  have ts: "ts = [''Town A'', ''Town B'', ''Town C'']"
    and ws: "ws = [Finite 55, Finite 60, Finite 65]"
    and ms: "ms = [Finite 45, Finite 40, Finite 35]"
    using assms(2-4) by (simp_all add: get_col_def sample_df_def)
  from assms(5) have "i = 0 \<or> i = 1 \<or> i = 2" by (auto simp: nrows_def sample_df_def)
  then show ?thesis
    using assms(1,6) unfolding ts ws ms
    by (auto simp: section_pie_def pie_chart_def sample_df_def get_col_def eq_mask_def
        filter_rows_def iloc0_def row_get_def)
qed

theorem pie_slices_raw_witness:
  "submit_button ui_example \<and> selected_town ui_example = ''Town B''
     \<and> section_pie ui_example \<lparr>df = derived_example, charts = []\<rparr> =
         Inr \<lparr>df = sample_df,
              charts = [Pie (S ''Town B'') [(''Women'', N (Finite 60)), (''Men'', N (Finite 40))]]\<rparr>"
proof -
  have g: "get_col sample_df ''Town'' = Inr (StrCol [''Town A'', ''Town B'', ''Town C''])"
    "get_col sample_df women = Inr (NumCol [Finite 55, Finite 60, Finite 65])"
    "get_col sample_df men = Inr (NumCol [Finite 45, Finite 40, Finite 35])"
    by (simp_all add: get_col_def sample_df_def)
  have sb: "submit_button ui_example" by (simp add: ui_example_def)
  have n: "1 < nrows sample_df" by (simp add: nrows_def sample_df_def)
  have t: "selected_town ui_example = [''Town A'', ''Town B'', ''Town C''] ! 1"
    by (simp add: ui_example_def)
  from pie_slices_raw [OF sb g n t, of "\<lparr>df = derived_example, charts = []\<rparr>"] sb
  show ?thesis by (simp add: ui_example_def)
qed

section \<open>The sample table and the sections after it\<close>

lemma strip_columns_sample: "strip_columns sample_df = sample_df"
  by (simp add: strip_columns_def sample_df_def strip_def lstrip_def rstrip_def is_space_def
      space2_def space3_def)

lemma strip_columns_six_towns: "strip_columns six_towns = six_towns"
  by (simp add: strip_columns_def six_towns_def strip_def lstrip_def rstrip_def is_space_def
      space2_def space3_def)

lemma section_pie_df:
  assumes "section_pie u st = Inr st'"
  shows "df st' = sample_df"
  using assms
  by (auto simp: section_pie_def Let_def and_then_def split: sum.splits if_splits)

lemma section_category_df:
  assumes "df st = sample_df" "section_category u st = Inr st'"
  shows "df st' = sample_df"
  using assms
  by (auto simp: section_category_def Let_def and_then_def strip_columns_sample split: sum.splits)

lemma section_age_group_sample:
  assumes "df st = sample_df"
  shows "section_age_group u st = Inl (KeyError [bucket1])"
  using assms
  by (simp add: section_age_group_def average_family_size_again_def get_col_def sample_df_def)

lemma run_suffix:
  assumes "\<And>st. snd (run gs st) \<noteq> None"
  shows "snd (run (fs @ gs) st) \<noteq> None"
proof (induction fs arbitrary: st)
  case Nil
  show ?case using assms by simp
next
  case (Cons f fs)
  show ?case
  proof (cases "f st")
    case (Inl e)
    then show ?thesis by simp
  next
    case (Inr st')
    with Cons.IH [of st'] show ?thesis by simp
  qed
qed

lemma run_after_sample:
  "snd (run [section_pie u, section_category u, section_age_group u] st) \<noteq> None"
proof (cases "section_pie u st")
  case (Inl e)
  then show ?thesis by (simp only: run.simps sum.case snd_conv) simp
next
  case s4: (Inr st4)
  then have d4: "df st4 = sample_df" by (rule section_pie_df)
  show ?thesis
  proof (cases "section_category u st4")
    case (Inl e)
    with s4 show ?thesis by (simp only: run.simps sum.case snd_conv) simp
  next
    case s5: (Inr st5)
    from d4 s5 have "df st5 = sample_df" by (rule section_category_df)
    then have "section_age_group u st5 = Inl (KeyError [bucket1])"
      by (rule section_age_group_sample)
    with s4 s5 show ?thesis by (simp only: run.simps sum.case snd_conv) simp
  qed
qed

lemma dashboard_never_completes: "snd (dashboard u loaded) \<noteq> None"
proof -
  have "snd (run ([section_gender u, section_family_size, section_annotation u]
                   @ [section_pie u, section_category u, section_age_group u])
                 \<lparr>df = loaded, charts = []\<rparr>) \<noteq> None"
    by (rule run_suffix) (rule run_after_sample)
  then show ?thesis unfolding dashboard_def append.simps .
qed

lemma weighted_mean_1_2_1: "weighted_mean (Finite 1) (Finite 2) (Finite 1) = Finite (37 / 8)"
proof -
  have "weighted_mean (Finite (of_nat 1)) (Finite (of_nat 2)) (Finite (of_nat 1)) =
     fround ((3 / 2 * of_nat 1 + 5 * of_nat 2 + 7 * of_nat 1) / (of_nat 1 + of_nat 2 + of_nat 1))"
    by (rule weighted_mean_counts_value) simp_all
  moreover have "fround (37 / 8) = Finite (37 / 8)"
  proof (rule fround_at [where e = 2 and k = "37 * 2 ^ 47"])
    show "round_even (37 / 8 / 2 powi (2 - 52)) = 37 * 2 ^ 47"
      by (rule round_even_near) (simp add: power_int_def power_divide)
  qed (simp_all add: power_int_def power_divide)
  ultimately show ?thesis by simp
qed

lemma average_family_size_towns_example:
  "average_family_size towns_example = Inr derived_example"
proof -
  have g: "map_of towns_example bucket1 = Some (NumCol [Finite 2, Finite 0, Finite 1])"
    "map_of towns_example bucket2 = Some (NumCol [Finite 0, Finite 0, Finite 2])"
    "map_of towns_example bucket3 = Some (NumCol [Finite 0, Finite 0, Finite 1])"
    by (simp_all add: towns_example_def)
  have z: "weighted_mean (Finite 0) (Finite 0) (Finite 0) = NaN"
    by (rule weighted_mean_zero) simp_all
  have "[0..<length [Finite 2, Finite 0, Finite 1]] = [0, 1, 2]" by (simp add: upt_rec)
  then have "average_family_size towns_example =
      Inr (set_col family_size (NumCol [Finite (3 / 2), NaN, Finite (37 / 8)]) towns_example)"
    using average_family_size_numeric [OF g]
    by (simp add: weighted_mean_2_0_0 weighted_mean_1_2_1 z)
  also have "set_col family_size (NumCol [Finite (3 / 2), NaN, Finite (37 / 8)]) towns_example = derived_example"
    by (simp add: derived_example_def towns_example_def)
  finally show ?thesis .
qed

lemma weighted_mean_counts_exact:
  assumes "n1 < 2 ^ 48" "n2 < 2 ^ 48" "n3 < 2 ^ 48" "0 < n1 + n2 + n3"
    and "formula_average (of_nat n1) (of_nat n2) (of_nat n3) * 2 ^ 50 = of_int k"
  shows "weighted_mean (Finite (of_nat n1)) (Finite (of_nat n2)) (Finite (of_nat n3))
     = Finite (formula_average (of_nat n1) (of_nat n2) (of_nat n3))"
  using weighted_mean_counts_formula [OF assms(1-4)] assms(5) by auto

lemma six_towns_means:
  "weighted_mean (Finite 1) (Finite 1) (Finite 1) = Finite (9 / 2)"
  "weighted_mean (Finite 0) (Finite 1) (Finite 0) = Finite 5"
  "weighted_mean (Finite 0) (Finite 0) (Finite 3) = Finite 7"
  "weighted_mean (Finite 3) (Finite 3) (Finite 0) = Finite (13 / 4)"
  using weighted_mean_counts_exact [of 1 1 1 "9 * 2 ^ 49"]
    weighted_mean_counts_exact [of 0 1 0 "5 * 2 ^ 50"]
    weighted_mean_counts_exact [of 0 0 3 "7 * 2 ^ 50"]
    weighted_mean_counts_exact [of 3 3 0 "13 * 2 ^ 48"]
  by (simp_all add: formula_average_def)

lemma average_family_size_six_towns:
  "average_family_size six_towns = Inr six_towns_derived"
proof -
  have g: "map_of six_towns bucket1 = Some (NumCol [Finite 2, Finite 1, Finite 0, Finite 0, Finite 1, Finite 3])"
    "map_of six_towns bucket2 = Some (NumCol [Finite 0, Finite 1, Finite 1, Finite 0, Finite 2, Finite 3])"
    "map_of six_towns bucket3 = Some (NumCol [Finite 0, Finite 1, Finite 0, Finite 3, Finite 1, Finite 0])"
    by (simp_all add: six_towns_def)
  have "[0..<length [Finite 2, Finite 1, Finite 0, Finite 0, Finite 1, Finite 3]] = [0, 1, 2, 3, 4, 5]"
    by (simp add: upt_rec)
  then have "average_family_size six_towns =
      Inr (set_col family_size
             (NumCol [Finite (3 / 2), Finite (9 / 2), Finite 5, Finite 7, Finite (37 / 8), Finite (13 / 4)])
             six_towns)"
    using average_family_size_numeric [OF g]
    by (simp add: weighted_mean_2_0_0 weighted_mean_1_2_1 six_towns_means)
  also have "set_col family_size
             (NumCol [Finite (3 / 2), Finite (9 / 2), Finite 5, Finite 7, Finite (37 / 8), Finite (13 / 4)])
             six_towns = six_towns_derived"
    by (simp add: six_towns_derived_def six_towns_def)
  finally show ?thesis .
qed

lemma gender_six_towns:
  "section_gender ui_first \<lparr>df = six_towns, charts = []\<rparr> =
     Inr \<lparr>df = six_towns,
          charts = [Bar [(S ''Aain El Saydeh'', women, N (Finite 50)), (S ''Aabadiyeh'', women, N (Finite 51)),
                         (S ''Aachqout'', women, N (Finite 49)), (S ''Khreibet Baabda'', women, N (Finite 52)),
                         (S ''Aabdine'', women, N (Finite 48)), (S ''Fourzol'', women, N (Finite 50)),
                         (S ''Aain El Saydeh'', men, N (Finite 50)), (S ''Aabadiyeh'', men, N (Finite 49)),
                         (S ''Aachqout'', men, N (Finite 51)), (S ''Khreibet Baabda'', men, N (Finite 48)),
                         (S ''Aabdine'', men, N (Finite 52)), (S ''Fourzol'', men, N (Finite 50))]]\<rparr>"
  by (simp add: section_gender_def strip_columns_six_towns truncation_plot_def melt_def ui_first_def)
     (simp add: six_towns_def get_col_def)

lemma family_size_six_towns:
  "section_family_size \<lparr>df = six_towns, charts = cs\<rparr> = Inr \<lparr>df = six_towns_derived, charts = cs\<rparr>"
  by (simp add: section_family_size_def strip_columns_six_towns average_family_size_six_towns)

lemma annotation_six_towns:
  "section_annotation ui_first \<lparr>df = six_towns_derived, charts = cs\<rparr> =
     Inr \<lparr>df = six_towns_derived,
          charts = cs @
            [Scatter (([N (Finite (3 / 2)), N (Finite (9 / 2)), N (Finite 5), N (Finite 7),
                        N (Finite (37 / 8)), N (Finite (13 / 4))],
                       [N (Finite 10), N (Finite 12), N (Finite 9), N (Finite 11), N (Finite 8),
                        N (Finite 13)],
                       [S ''Aain El Saydeh'', S ''Aabadiyeh'', S ''Aachqout'', S ''Khreibet Baabda'',
                        S ''Aabdine'', S ''Fourzol'']),
                      [([N (Finite (3 / 2))], [N (Finite 10)], [S ''Aain El Saydeh'']),
                       ([N (Finite (9 / 2))], [N (Finite 12)], [S ''Aabadiyeh'']),
                       ([N (Finite 5)], [N (Finite 9)], [S ''Aachqout'']),
                       ([N (Finite 7)], [N (Finite 11)], [S ''Khreibet Baabda'']),
                       ([N (Finite (37 / 8))], [N (Finite 8)], [S ''Aabdine'']),
                       ([N (Finite (13 / 4))], [N (Finite 13)], [S ''Fourzol''])])]\<rparr>"
proof -
  have g: "get_col six_towns_derived ''Town'' =
      Inr (StrCol [''Aain El Saydeh'', ''Aabadiyeh'', ''Aachqout'', ''Khreibet Baabda'', ''Aabdine'', ''Fourzol''])"
    "get_col six_towns_derived family_size =
      Inr (NumCol [Finite (3 / 2), Finite (9 / 2), Finite 5, Finite 7, Finite (37 / 8), Finite (13 / 4)])"
    "get_col six_towns_derived elderly =
      Inr (NumCol [Finite 10, Finite 12, Finite 9, Finite 11, Finite 8, Finite 13])"
    by (simp_all add: get_col_def six_towns_derived_def six_towns_def)
  have sel: "selected_towns ui_first = default_towns" by (simp add: ui_first_def)
  have ms: "multiselect [S ''Aain El Saydeh'', S ''Aabadiyeh'', S ''Aachqout'', S ''Khreibet Baabda'',
                S ''Aabdine'', S ''Fourzol''] default_towns default_towns = Inr default_towns"
    by (simp add: multiselect_def default_towns_def)
  show ?thesis
    by (simp add: section_annotation_def g sel ms annotated_scatter_traces [OF g])
       (simp add: default_towns_def eq_mask_def)
qed

lemma pie_not_submitted:
  "section_pie ui_first \<lparr>df = d, charts = cs\<rparr> = Inr \<lparr>df = sample_df, charts = cs\<rparr>"
  by (simp add: section_pie_def ui_first_def get_col_def sample_df_def)

lemma category_sample:
  "section_category ui_first \<lparr>df = sample_df, charts = cs\<rparr> =
     Inr \<lparr>df = sample_df,
          charts = cs @ [Bar [(S ''Town A'', women, N (Finite 55)), (S ''Town B'', women, N (Finite 60)),
                              (S ''Town C'', women, N (Finite 65)), (S ''Town A'', men, N (Finite 45)),
                              (S ''Town B'', men, N (Finite 40)), (S ''Town C'', men, N (Finite 35))]]\<rparr>"
  by (simp add: section_category_def strip_columns_sample category_flow_def ui_first_def)
     (simp add: sample_df_def select_cols_def melt_def)

text \<open>
  C2. The sample table of the pie chart is meant to stand apart from the loaded table,
  so that the sections after it still work on the loaded table. The script does not do
  that: it binds the sample to the variable \<^verbatim>\<open>df\<close> itself. On a loaded table that
  holds the six default towns, with the widgets as the page first shows them, the bar
  chart of the selected categories is drawn from the three sample towns, and the second
  computation of the average family size raises KeyError on the sample, which has no
  bucket columns, so the last scatter plot is never drawn. By
  \<open>dashboard_never_completes\<close> no run reaches its end, whatever the loaded table and
  the widgets.
\<close>

theorem dashboard_rebinds_df:
  "dashboard ui_first six_towns =
     (\<lparr>df = sample_df,
       charts =
         [Bar [(S ''Aain El Saydeh'', women, N (Finite 50)), (S ''Aabadiyeh'', women, N (Finite 51)),
               (S ''Aachqout'', women, N (Finite 49)), (S ''Khreibet Baabda'', women, N (Finite 52)),
               (S ''Aabdine'', women, N (Finite 48)), (S ''Fourzol'', women, N (Finite 50)),
               (S ''Aain El Saydeh'', men, N (Finite 50)), (S ''Aabadiyeh'', men, N (Finite 49)),
               (S ''Aachqout'', men, N (Finite 51)), (S ''Khreibet Baabda'', men, N (Finite 48)),
               (S ''Aabdine'', men, N (Finite 52)), (S ''Fourzol'', men, N (Finite 50))],
          Scatter (([N (Finite (3 / 2)), N (Finite (9 / 2)), N (Finite 5), N (Finite 7),
                     N (Finite (37 / 8)), N (Finite (13 / 4))],
                    [N (Finite 10), N (Finite 12), N (Finite 9), N (Finite 11), N (Finite 8),
                     N (Finite 13)],
                    [S ''Aain El Saydeh'', S ''Aabadiyeh'', S ''Aachqout'', S ''Khreibet Baabda'',
                     S ''Aabdine'', S ''Fourzol'']),
                   [([N (Finite (3 / 2))], [N (Finite 10)], [S ''Aain El Saydeh'']),
                    ([N (Finite (9 / 2))], [N (Finite 12)], [S ''Aabadiyeh'']),
                    ([N (Finite 5)], [N (Finite 9)], [S ''Aachqout'']),
                    ([N (Finite 7)], [N (Finite 11)], [S ''Khreibet Baabda'']),
                    ([N (Finite (37 / 8))], [N (Finite 8)], [S ''Aabdine'']),
                    ([N (Finite (13 / 4))], [N (Finite 13)], [S ''Fourzol''])]),
          Bar [(S ''Town A'', women, N (Finite 55)), (S ''Town B'', women, N (Finite 60)),
               (S ''Town C'', women, N (Finite 65)), (S ''Town A'', men, N (Finite 45)),
               (S ''Town B'', men, N (Finite 40)), (S ''Town C'', men, N (Finite 35))]]\<rparr>,
      Some (KeyError [bucket1]))"
  by (simp add: dashboard_def gender_six_towns family_size_six_towns annotation_six_towns
        pie_not_submitted category_sample section_age_group_sample)

text \<open>On a table that lacks a default town the run stops earlier, at the multiselect.\<close>

lemma strip_columns_towns_example: "strip_columns towns_example = towns_example"
  by (simp add: strip_columns_def towns_example_def strip_def lstrip_def rstrip_def is_space_def
      space2_def space3_def)

lemma missing_default_town_stops_run:
  "snd (dashboard ui_example towns_example) = Some StreamlitAPIException"
proof -
  have g: "section_gender ui_example \<lparr>df = towns_example, charts = []\<rparr> =
     Inr \<lparr>df = towns_example,
          charts = [Bar [(S ''Aabadiyeh'', women, N (Finite 50)), (S ''Aachqout'', women, N (Finite 51)),
                         (S ''Fourzol'', women, N (Finite 49)), (S ''Aabadiyeh'', men, N (Finite 50)),
                         (S ''Aachqout'', men, N (Finite 49)), (S ''Fourzol'', men, N (Finite 51))]]\<rparr>"
    by (simp add: section_gender_def strip_columns_towns_example truncation_plot_def melt_def ui_example_def)
       (simp add: towns_example_def get_col_def)
  have f: "section_family_size \<lparr>df = towns_example, charts = cs\<rparr> = Inr \<lparr>df = derived_example, charts = cs\<rparr>" for cs
    by (simp add: section_family_size_def strip_columns_towns_example average_family_size_towns_example)
  have a: "section_annotation ui_example \<lparr>df = derived_example, charts = cs\<rparr> = Inl StreamlitAPIException" for cs
    by (simp add: section_annotation_def get_col_def derived_example_def towns_example_def
        multiselect_def default_towns_def)
  show ?thesis by (simp add: dashboard_def g f a)
qed

section \<open>The two computations of the average family size\<close>

text \<open>
  C9. The derived column is computed twice in the script, with the same formula: as
  functions of the table the two computations are equal, so on the same table they give
  the same result, the same derived column or the same error.
\<close>

theorem average_family_size_twice_equal:
  "average_family_size_again d = average_family_size d"
  by (simp add: average_family_size_again_def average_family_size_def)

end
